theory Spec2Isabelle
  imports Complex_Main "HOL-Library.Sublist" "HOL-Library.List_Lexorder"
begin

section \<open>Python strings\<close>

text \<open>
  A Python \<^verbatim>\<open>str\<close> is a sequence of Unicode code points, so it is modelled as a list of
  natural numbers. ASCII literals of the source are written \<open>ascii ''...''\<close>; the Chinese
  literals and the emoji of the source are written as their code points, with the
  \<^verbatim>\<open>\uXXXX\<close> spelling beside them.

  \<^item> \<^verbatim>\<open>a in b\<close> on strings is the contiguous-substring test, \<open>sublist a b\<close>;
  \<^item> comparison of strings (used by \<^verbatim>\<open>sorted\<close>) is the lexicographic order on code
    points, which is the order of \<open>HOL-Library.List_Lexorder\<close>;
  \<^item> \<^verbatim>\<open>str.lower\<close> depends on the Unicode case tables; the functions that call it take
    it as the parameter \<open>lower\<close>, and \<open>ascii_lower\<close> is its restriction to ASCII,
    used for concrete runs.
\<close>

type_synonym pystr = "nat list"

definition ascii :: "string \<Rightarrow> pystr" where
  "ascii s = map of_char s"

definition ascii_lower :: "pystr \<Rightarrow> pystr" where
  "ascii_lower s = map (\<lambda>c. if 65 \<le> c \<and> c \<le> 90 then c + 32 else c) s"

subsection \<open>String operations of the Python library\<close>

text \<open>
  \<^verbatim>\<open>str.isspace\<close>, which decides what \<^verbatim>\<open>str.strip()\<close> removes and what \<^verbatim>\<open>\s\<close>
  matches in a \<^verbatim>\<open>str\<close> pattern: the white-space code points of Unicode
  (TAB..CR, FS..US, SPACE, NEL, NBSP, U+1680, U+2000..U+200A, U+2028, U+2029, U+202F,
  U+205F, U+3000).
\<close>

definition isspace :: "nat \<Rightarrow> bool" where
  "isspace c \<longleftrightarrow>
     (9 \<le> c \<and> c \<le> 13) \<or> (28 \<le> c \<and> c \<le> 32) \<or> c = 133 \<or> c = 160 \<or> c = 5760 \<or>
     (8192 \<le> c \<and> c \<le> 8202) \<or> c = 8232 \<or> c = 8233 \<or> c = 8239 \<or> c = 8287 \<or>
     c = 12288"

text \<open>
  \<^verbatim>\<open>\d\<close> and \<^verbatim>\<open>int()\<close> on the ASCII digits, which is what \<^verbatim>\<open>git show --stat\<close>
  prints; the decimal digits of other scripts are not modelled.
\<close>

definition isdigit :: "nat \<Rightarrow> bool" where
  "isdigit c \<longleftrightarrow> 48 \<le> c \<and> c \<le> 57"

definition int_of_digits :: "pystr \<Rightarrow> int" where
  "int_of_digits ds = foldl (\<lambda>a d. 10 * a + int (d - 48)) 0 ds"

text \<open>\<^verbatim>\<open>s.strip()\<close>\<close>

definition strip :: "pystr \<Rightarrow> pystr" where
  "strip s = rev (dropWhile isspace (rev (dropWhile isspace s)))"

text \<open>
  \<^verbatim>\<open>s.split(sep)\<close> and \<^verbatim>\<open>s.split(sep, maxsplit)\<close> for a separator of one
  character, which is all the source uses (\<^verbatim>\<open>'\n'\<close> is 10, \<^verbatim>\<open>'|'\<close> is 124). The
  result is never empty; the last branch of each \<open>case\<close> is not reachable.
\<close>

fun split :: "nat \<Rightarrow> pystr \<Rightarrow> pystr list" where
  "split sep [] = [[]]"
| "split sep (x # xs) =
     (if x = sep then [] # split sep xs
      else (case split sep xs of p # ps \<Rightarrow> (x # p) # ps | [] \<Rightarrow> [[x]]))"

fun split_max :: "nat \<Rightarrow> nat \<Rightarrow> pystr \<Rightarrow> pystr list" where
  "split_max sep 0 s = [s]"
| "split_max sep (Suc n) [] = [[]]"
| "split_max sep (Suc n) (x # xs) =
     (if x = sep then [] # split_max sep n xs
      else (case split_max sep (Suc n) xs of p # ps \<Rightarrow> (x # p) # ps | [] \<Rightarrow> [[x]]))"

text \<open>\<^verbatim>\<open>sep.join(xs)\<close>\<close>

fun join :: "pystr \<Rightarrow> pystr list \<Rightarrow> pystr" where
  "join sep [] = []"
| "join sep [x] = x"
| "join sep (x # y # ys) = x @ sep @ join sep (y # ys)"

text \<open>\<^verbatim>\<open>str(n)\<close>, as an f-string formats an integer.\<close>

fun str_nat :: "nat \<Rightarrow> pystr" where
  "str_nat n = (if n < 10 then [48 + n] else str_nat (n div 10) @ [48 + n mod 10])"

declare str_nat.simps [simp del]

definition str_int :: "int \<Rightarrow> pystr" where
  "str_int i = (if i < 0 then 45 # str_nat (nat (- i)) else str_nat (nat i))"

text \<open>
  Truth value of an optional string (\<^verbatim>\<open>None\<close> and \<^verbatim>\<open>''\<close> are false), and
  \<^verbatim>\<open>a or b\<close> on such values.
\<close>

definition truthy :: "pystr option \<Rightarrow> bool" where
  "truthy v = (case v of None \<Rightarrow> False | Some s \<Rightarrow> s \<noteq> [])"

definition py_or :: "pystr option \<Rightarrow> pystr option \<Rightarrow> pystr option" where
  "py_or a b = (if truthy a then a else b)"

section \<open>Commit records\<close>

text \<open>
  The dictionaries built by \<^verbatim>\<open>get_commits_last_week\<close> have the four keys
  \<^verbatim>\<open>hash\<close>, \<^verbatim>\<open>author\<close>, \<^verbatim>\<open>date\<close>, \<^verbatim>\<open>message\<close>;
  \<^verbatim>\<open>enhance_commit_messages\<close> adds the key \<^verbatim>\<open>original_message\<close>, which is
  \<open>None\<close> while the key is absent.
\<close>

record commit =
  hash :: pystr
  author :: pystr
  date :: pystr
  message :: pystr
  original_message :: "pystr option"

section \<open>The external collaborators\<close>

text \<open>
  \<^verbatim>\<open>subprocess.run(cmd, capture_output=True, text=True, check=True)\<close> returns the
  standard output of a run that exits with status 0, raises
  \<^verbatim>\<open>CalledProcessError\<close> for another exit status, and raises
  \<^verbatim>\<open>FileNotFoundError\<close> when the executable does not exist. These are the three
  outcomes the source distinguishes.
\<close>

datatype run_outcome = Completed pystr | CalledProcessError | FileNotFoundError

text \<open>
  A decoded JSON document, as \<^verbatim>\<open>response.json()\<close> returns it. An object is the
  association list of its dictionary.
\<close>

datatype json =
  JNull | JBool bool | JNum real | JStr pystr | JArr "json list" | JObj "(pystr \<times> json) list"

text \<open>
  \<^verbatim>\<open>requests.post\<close> either raises or returns a response with its
  \<^verbatim>\<open>status_code\<close> and its body; the body is \<open>None\<close> when
  \<^verbatim>\<open>response.json()\<close> raises.
\<close>

datatype post_outcome = Response int "json option" | RequestRaises

record request =
  req_url :: pystr
  req_headers :: "(pystr \<times> pystr) list"
  req_model :: pystr
  req_content :: pystr
  req_temperature :: real
  req_max_tokens :: nat
  req_timeout :: nat

text \<open>
  The world outside the program: the case tables of \<^verbatim>\<open>str.lower\<close>, the processes
  started by \<^verbatim>\<open>subprocess.run\<close> and the remote API behind \<^verbatim>\<open>requests.post\<close>.
  Each is a function of its argument, so two calls with the same argument give the same
  answer within one run.
\<close>

record env =
  str_lower :: "pystr \<Rightarrow> pystr"
  subprocess_run :: "pystr list \<Rightarrow> run_outcome"
  requests_post :: "request \<Rightarrow> post_outcome"

text \<open>The exceptions that travel through the model.\<close>

datatype exn =
  KeyError | IndexError | TypeError | AttributeError | JSONDecodeError
  | FileNotFoundError_raised

section \<open>Message enhancer: class \<^verbatim>\<open>LLMEnhancer\<close>\<close>

record llm_enhancer =
  api_key :: "pystr option"
  model :: pystr
  base_url :: pystr

definition default_model :: pystr where
  "default_model = ascii ''openai/gpt-3.5-turbo''"

text \<open>
  \<^verbatim>\<open>__init__\<close>: \<open>getenv\<close> is the value of the environment variable
  \<^verbatim>\<open>OPENROUTER_API_KEY\<close>.
\<close>

definition LLMEnhancer :: "pystr option \<Rightarrow> pystr \<Rightarrow> pystr option \<Rightarrow> llm_enhancer" where
  "LLMEnhancer key mdl getenv =
     \<lparr>api_key = py_or key getenv, model = mdl,
      base_url = ascii ''https://openrouter.ai/api/v1/chat/completions''\<rparr>"

definition request_headers :: "llm_enhancer \<Rightarrow> (pystr \<times> pystr) list" where
  "request_headers self =
     [(ascii ''Authorization'',
       ascii ''Bearer '' @ (case api_key self of Some k \<Rightarrow> k | None \<Rightarrow> ascii ''None'')),
      (ascii ''Content-Type'', ascii ''application/json''),
      (ascii ''HTTP-Referer'', ascii ''https://github.com/user/git-weekly-report''),
      (ascii ''X-Title'', ascii ''Git Weekly Report Generator'')]"

text \<open>The two prompt templates (lines 29-33 and 73-77), split at their placeholder.\<close>

definition enhance_prompt_head :: pystr where
  \<comment> \<open>\<^verbatim>\<open>\u8bf7\u5c06\u4ee5\u4e0b git commit \u6d88\u606f\u7ffb\u8bd1\u6210\u4e2d\u6587\uff0c ... \n\n\u539f\u59cb\u6d88\u606f: \<close>\<close>
  "enhance_prompt_head =
     [35831, 23558, 20197, 19979] @ ascii '' git commit '' @
     [28040, 24687, 32763, 35793, 25104, 20013, 25991, 65292, 24182, 36827, 34892, 36866,
      24403, 30340, 28070, 33394, 65292, 20351, 20854, 26356, 31526, 21512, 20013, 25991,
      34920, 36798, 20064, 24815, 12290, 20445, 25345, 25216, 26415, 26415, 35821, 30340,
      20934, 30830, 24615, 65292, 35753, 25551, 36848, 26356, 21152, 28165, 26224, 26131,
      25026, 12290, 10, 10, 21407, 22987, 28040, 24687] @ ascii '': ''"

definition enhance_prompt_tail :: pystr where
  \<comment> \<open>\<^verbatim>\<open>\n\n\u8bf7\u76f4\u63a5\u8fd4\u56de\u7ffb\u8bd1\u6da6\u8272\u540e\u7684\u4e2d\u6587\u6d88\u606f\uff0c\u4e0d\u8981\u6dfb\u52a0\u4efb\u4f55\u89e3\u91ca\u3002\<close>\<close>
  "enhance_prompt_tail =
     [10, 10, 35831, 30452, 25509, 36820, 22238, 32763, 35793, 28070, 33394, 21518, 30340,
      20013, 25991, 28040, 24687, 65292, 19981, 35201, 28155, 21152, 20219, 20309, 35299,
      37322, 12290]"

definition summary_prompt_head :: pystr where
  \<comment> \<open>\<^verbatim>\<open>\u57fa\u4e8e\u4ee5\u4e0b\u672c\u5468\u7684 git commit \u8bb0\u5f55\uff0c ... \uff0850-100\u5b57\uff09\uff0c ... \uff1a\n\n\<close>\<close>
  "summary_prompt_head =
     [22522, 20110, 20197, 19979, 26412, 21608, 30340] @ ascii '' git commit '' @
     [35760, 24405, 65292, 35831, 29983, 25104, 19968, 27573, 31616, 27905, 30340, 20013,
      25991, 24037, 20316, 24635, 32467, 65288] @ ascii ''50-100'' @
     [23383, 65289, 65292, 31361, 20986, 20027, 35201, 25104, 26524, 21644, 36827, 23637,
      65306, 10, 10]"

definition summary_prompt_tail :: pystr where
  \<comment> \<open>\<^verbatim>\<open>\n\n\u8bf7\u76f4\u63a5\u8fd4\u56de\u603b\u7ed3\u5185\u5bb9\uff0c\u4e0d\u8981\u6dfb\u52a0\u4efb\u4f55\u6807\u9898\u6216\u89e3\u91ca\u3002\<close>\<close>
  "summary_prompt_tail =
     [10, 10, 35831, 30452, 25509, 36820, 22238, 24635, 32467, 20869, 23481, 65292, 19981,
      35201, 28155, 21152, 20219, 20309, 26631, 39064, 25110, 35299, 37322, 12290]"

text \<open>
  \<^verbatim>\<open>result['choices'][0]['message']['content'].strip()\<close>, one step at a time, with
  the exception each step raises on a value of the wrong shape.
\<close>

definition getitem :: "json \<Rightarrow> pystr \<Rightarrow> exn + json" where
  "getitem j k =
     (case j of
        JObj kvs \<Rightarrow> (case map_of kvs k of Some v \<Rightarrow> Inr v | None \<Rightarrow> Inl KeyError)
      | _ \<Rightarrow> Inl TypeError)"

definition getitem0 :: "json \<Rightarrow> exn + json" where
  "getitem0 j =
     (case j of
        JArr xs \<Rightarrow> (case xs of [] \<Rightarrow> Inl IndexError | x # _ \<Rightarrow> Inr x)
      | JStr s \<Rightarrow> (case s of [] \<Rightarrow> Inl IndexError | c # _ \<Rightarrow> Inr (JStr [c]))
      | JObj kvs \<Rightarrow> Inl KeyError
      | _ \<Rightarrow> Inl TypeError)"

definition json_strip :: "json \<Rightarrow> exn + pystr" where
  "json_strip j = (case j of JStr s \<Rightarrow> Inr (strip s) | _ \<Rightarrow> Inl AttributeError)"

definition response_content :: "json option \<Rightarrow> exn + pystr" where
  "response_content body =
     (case body of
        None \<Rightarrow> Inl JSONDecodeError
      | Some result \<Rightarrow>
          (case getitem result (ascii ''choices'') of
             Inl e \<Rightarrow> Inl e
           | Inr choices \<Rightarrow>
               (case getitem0 choices of
                  Inl e \<Rightarrow> Inl e
                | Inr choice \<Rightarrow>
                    (case getitem choice (ascii ''message'') of
                       Inl e \<Rightarrow> Inl e
                     | Inr msg \<Rightarrow>
                         (case getitem msg (ascii ''content'') of
                            Inl e \<Rightarrow> Inl e
                          | Inr content \<Rightarrow> json_strip content)))))"

definition enhance_request :: "llm_enhancer \<Rightarrow> pystr \<Rightarrow> request" where
  "enhance_request self msg =
     \<lparr>req_url = base_url self, req_headers = request_headers self, req_model = model self,
      req_content = enhance_prompt_head @ msg @ enhance_prompt_tail,
      req_temperature = 3 / 10, req_max_tokens = 100, req_timeout = 10\<rparr>"

text \<open>
  \<^verbatim>\<open>enhance_commit_message\<close>: the \<^verbatim>\<open>try\<close> block catches every
  \<^verbatim>\<open>Exception\<close>, so each failure becomes the original message.
\<close>

definition enhance_commit_message :: "env \<Rightarrow> llm_enhancer \<Rightarrow> pystr \<Rightarrow> pystr" where
  "enhance_commit_message e self msg =
     (if \<not> truthy (api_key self) then msg
      else (case requests_post e (enhance_request self msg) of
              RequestRaises \<Rightarrow> msg
            | Response status_code body \<Rightarrow>
                if status_code = 200
                then (case response_content body of Inr s \<Rightarrow> s | Inl ex \<Rightarrow> msg)
                else msg))"

definition commit_texts :: "commit list \<Rightarrow> pystr list" where
  "commit_texts commits =
     map (\<lambda>c. ascii ''- '' @ author c @ ascii '': '' @ message c) (take 10 commits)"

definition summary_request :: "llm_enhancer \<Rightarrow> commit list \<Rightarrow> request" where
  "summary_request self commits =
     \<lparr>req_url = base_url self, req_headers = request_headers self, req_model = model self,
      req_content =
        summary_prompt_head @ join [10] (commit_texts commits) @ summary_prompt_tail,
      req_temperature = 5 / 10, req_max_tokens = 150, req_timeout = 15\<rparr>"

definition generate_summary :: "env \<Rightarrow> llm_enhancer \<Rightarrow> commit list \<Rightarrow> pystr" where
  "generate_summary e self commits =
     (if \<not> truthy (api_key self) \<or> commits = [] then []
      else (case requests_post e (summary_request self commits) of
              RequestRaises \<Rightarrow> []
            | Response status_code body \<Rightarrow>
                if status_code = 200
                then (case response_content body of Inr s \<Rightarrow> s | Inl ex \<Rightarrow> [])
                else []))"

section \<open>Report generator: class \<^verbatim>\<open>GitWeeklyReport\<close>\<close>

record git_weekly_report =
  repo_path :: pystr
  use_llm :: bool
  llm :: "llm_enhancer option"
  self_author :: "pystr option"

definition GitWeeklyReport ::
  "pystr \<Rightarrow> bool \<Rightarrow> pystr option \<Rightarrow> pystr option \<Rightarrow> pystr option \<Rightarrow> git_weekly_report"
where
  "GitWeeklyReport path use key auth getenv =
     \<lparr>repo_path = path, use_llm = use,
      llm = (if use then Some (LLMEnhancer key default_model getenv) else None),
      self_author = auth\<rparr>"

subsection \<open>History fetcher: \<^verbatim>\<open>get_commits_last_week\<close>\<close>

text \<open>
  The command line; \<open>since_date\<close> is the formatted date of seven days before the
  call, which comes from the clock.
\<close>

definition log_cmd :: "git_weekly_report \<Rightarrow> pystr \<Rightarrow> pystr list" where
  "log_cmd self since_date =
     [ascii ''git'', ascii ''-C'', repo_path self, ascii ''log'',
      ascii ''--since='' @ since_date, ascii ''--pretty=format:%H|%an|%ad|%s'',
      ascii ''--date=short'', ascii ''--no-merges''] @
     (case self_author self of
        Some a \<Rightarrow> (if a \<noteq> [] then [ascii ''--author='' @ a] else [])
      | None \<Rightarrow> [])"

text \<open>The body of the loop over the lines (lines 138-146).\<close>

definition parse_line :: "pystr \<Rightarrow> commit option" where
  "parse_line line =
     (if line \<noteq> [] then
        (let parts = split_max 124 3 line in
         if length parts = 4
         then Some \<lparr>hash = parts ! 0, author = parts ! 1, date = parts ! 2,
                    message = parts ! 3, original_message = None\<rparr>
         else None)
      else None)"

definition parse_lines :: "pystr list \<Rightarrow> commit list" where
  "parse_lines ls =
     foldl (\<lambda>commits line.
              case parse_line line of Some c \<Rightarrow> commits @ [c] | None \<Rightarrow> commits) [] ls"

definition parse_log :: "pystr \<Rightarrow> commit list" where
  "parse_log out = parse_lines (split 10 (strip out))"

definition get_commits_last_week :: "env \<Rightarrow> git_weekly_report \<Rightarrow> pystr \<Rightarrow> commit list" where
  "get_commits_last_week e self since_date =
     (case subprocess_run e (log_cmd self since_date) of
        Completed out \<Rightarrow> parse_log out
      | CalledProcessError \<Rightarrow> []
      | FileNotFoundError \<Rightarrow> [])"

text \<open>
  A line is well formed when \<^verbatim>\<open>line.split('|', 3)\<close> has four parts, which is the
  test of the source.
\<close>

definition well_formed :: "pystr \<Rightarrow> bool" where
  "well_formed line \<longleftrightarrow> length (split_max 124 3 line) = 4"

subsection \<open>Stat fetcher: \<^verbatim>\<open>get_commit_stats\<close>\<close>

record commit_stats =
  files_changed :: int
  insertions :: int
  deletions :: int

definition zero_stats :: commit_stats where
  "zero_stats = \<lparr>files_changed = 0, insertions = 0, deletions = 0\<rparr>"

definition show_cmd :: "git_weekly_report \<Rightarrow> pystr \<Rightarrow> pystr list" where
  "show_cmd self commit_hash =
     [ascii ''git'', ascii ''-C'', repo_path self, ascii ''show'', ascii ''--stat'',
      ascii ''--format='', commit_hash]"

text \<open>
  \<^verbatim>\<open>re.search(r'(\d+)\s+word', line)\<close> for a literal \<open>word\<close> that starts with a
  letter. \<open>match_at\<close> is the match that starts at the head of the string and returns
  group 1; the search tries the start positions from left to right. A digit is not white
  space and a letter is neither, so the greedy \<^verbatim>\<open>\d+\<close> and \<^verbatim>\<open>\s+\<close> take the whole run
  of digits and the whole run of white space, and giving characters back never helps.
\<close>

definition match_at :: "pystr \<Rightarrow> pystr \<Rightarrow> pystr option" where
  "match_at word s =
     (let digits = takeWhile isdigit s;
          rest = dropWhile isdigit s;
          after = dropWhile isspace rest
      in if digits \<noteq> [] \<and> length after < length rest \<and> prefix word after
         then Some digits else None)"

fun re_search :: "pystr \<Rightarrow> pystr \<Rightarrow> pystr option" where
  "re_search word [] = None"
| "re_search word (x # xs) =
     (case match_at word (x # xs) of
        Some g \<Rightarrow> Some g
      | None \<Rightarrow> re_search word xs)"

text \<open>The body of the loop over the lines of the output (lines 202-214).\<close>

definition update_stats :: "commit_stats \<Rightarrow> pystr \<Rightarrow> commit_stats" where
  "update_stats stats line =
     (if sublist (ascii '' file'') line \<and> sublist (ascii ''changed'') line then
        (let s1 = (case re_search (ascii ''file'') line of
                     Some g \<Rightarrow> stats\<lparr>files_changed := int_of_digits g\<rparr>
                   | None \<Rightarrow> stats);
             s2 = (case re_search (ascii ''insertion'') line of
                     Some g \<Rightarrow> s1\<lparr>insertions := int_of_digits g\<rparr>
                   | None \<Rightarrow> s1);
             s3 = (case re_search (ascii ''deletion'') line of
                     Some g \<Rightarrow> s2\<lparr>deletions := int_of_digits g\<rparr>
                   | None \<Rightarrow> s2)
         in s3)
      else stats)"

definition parse_stats :: "pystr \<Rightarrow> commit_stats" where
  "parse_stats out = foldl update_stats zero_stats (split 10 (strip out))"

text \<open>
  Only \<^verbatim>\<open>CalledProcessError\<close> is caught (line 218); a \<^verbatim>\<open>FileNotFoundError\<close>
  leaves the function.
\<close>

definition get_commit_stats :: "env \<Rightarrow> git_weekly_report \<Rightarrow> pystr \<Rightarrow> exn + commit_stats" where
  "get_commit_stats e self commit_hash =
     (case subprocess_run e (show_cmd self commit_hash) of
        Completed out \<Rightarrow> Inr (parse_stats out)
      | CalledProcessError \<Rightarrow> Inr zero_stats
      | FileNotFoundError \<Rightarrow> Inl FileNotFoundError_raised)"

subsection \<open>\<^verbatim>\<open>enhance_commit_messages\<close>\<close>

text \<open>
  An \<^verbatim>\<open>LLMEnhancer\<close> object is always true, so \<^verbatim>\<open>not self.llm\<close> holds exactly when
  the attribute is \<^verbatim>\<open>None\<close>.
\<close>

definition enhance_commit_messages ::
  "env \<Rightarrow> git_weekly_report \<Rightarrow> commit list \<Rightarrow> commit list" where
  "enhance_commit_messages e self commits =
     (case llm self of
        None \<Rightarrow> commits
      | Some l \<Rightarrow>
          if \<not> use_llm self then commits
          else map (\<lambda>commit.
                 commit\<lparr>original_message := Some (message commit),
                        message := enhance_commit_message e l (message commit)\<rparr>) commits)"

subsection \<open>Categorizer: \<^verbatim>\<open>categorize_commits\<close>\<close>

text \<open>The six dictionary keys, in the order of the dictionary literal (lines 237-244).\<close>

definition cat_feature :: pystr where \<comment> \<open>\<^verbatim>\<open>\u529f\u80fd\u5f00\u53d1\<close>\<close>
  "cat_feature = [21151, 33021, 24320, 21457]"

definition cat_bugfix :: pystr where \<comment> \<open>\<^verbatim>\<open>Bug\u4fee\u590d\<close>\<close>
  "cat_bugfix = ascii ''Bug'' @ [20462, 22797]"

definition cat_docs :: pystr where \<comment> \<open>\<^verbatim>\<open>\u6587\u6863\u66f4\u65b0\<close>\<close>
  "cat_docs = [25991, 26723, 26356, 26032]"

definition cat_refactor :: pystr where \<comment> \<open>\<^verbatim>\<open>\u4ee3\u7801\u4f18\u5316\<close>\<close>
  "cat_refactor = [20195, 30721, 20248, 21270]"

definition cat_test :: pystr where \<comment> \<open>\<^verbatim>\<open>\u6d4b\u8bd5\u76f8\u5173\<close>\<close>
  "cat_test = [27979, 35797, 30456, 20851]"

definition cat_other :: pystr where \<comment> \<open>\<^verbatim>\<open>\u5176\u4ed6\<close>\<close>
  "cat_other = [20854, 20182]"

definition category_labels :: "pystr list" where
  "category_labels = [cat_feature, cat_bugfix, cat_docs, cat_refactor, cat_test, cat_other]"

text \<open>The five keyword lists of lines 249-257, each in the order of its list literal.\<close>

definition feature_keywords :: "pystr list" where
  "feature_keywords =
     [ascii ''feat'', ascii ''feature'', ascii ''add'', [26032, 22686], [28155, 21152],
      ascii ''implement'', ascii ''create'']"

definition bugfix_keywords :: "pystr list" where
  "bugfix_keywords =
     [ascii ''fix'', ascii ''bug'', [20462, 22797], [35299, 20915], ascii ''patch'',
      ascii ''resolve'']"

definition docs_keywords :: "pystr list" where
  "docs_keywords =
     [ascii ''doc'', ascii ''readme'', [25991, 26723], [35828, 26126], ascii ''update'',
      ascii ''changelog'']"

definition refactor_keywords :: "pystr list" where
  "refactor_keywords =
     [ascii ''refactor'', ascii ''optimize'', [20248, 21270], [37325, 26500],
      ascii ''improve'', ascii ''enhance'']"

definition test_keywords :: "pystr list" where
  "test_keywords =
     [ascii ''test'', [27979, 35797], ascii ''spec'', ascii ''unit'', ascii ''coverage'']"

text \<open>\<^verbatim>\<open>any(keyword in message for keyword in kws)\<close>\<close>

definition any_keyword_in :: "pystr list \<Rightarrow> pystr \<Rightarrow> bool" where
  "any_keyword_in kws m = list_ex (\<lambda>keyword. sublist keyword m) kws"

text \<open>
  The \<^verbatim>\<open>if\<close>/\<^verbatim>\<open>elif\<close> chain of the loop body: the key of the bucket the commit is
  appended to.
\<close>

definition category_of :: "(pystr \<Rightarrow> pystr) \<Rightarrow> commit \<Rightarrow> pystr" where
  "category_of lower c =
     (let m = lower (message c) in
      if any_keyword_in feature_keywords m then cat_feature
      else if any_keyword_in bugfix_keywords m then cat_bugfix
      else if any_keyword_in docs_keywords m then cat_docs
      else if any_keyword_in refactor_keywords m then cat_refactor
      else if any_keyword_in test_keywords m then cat_test
      else cat_other)"

text \<open>
  The dictionary \<^verbatim>\<open>categories\<close> keeps its insertion order, which the report later
  iterates over, so it is an association list. \<open>dict_append\<close> is
  \<^verbatim>\<open>d[k].append(c)\<close> for a key that is present.
\<close>

type_synonym categories = "(pystr \<times> commit list) list"

definition categories_init :: categories where
  "categories_init =
     [(cat_feature, []), (cat_bugfix, []), (cat_docs, []), (cat_refactor, []),
      (cat_test, []), (cat_other, [])]"

definition dict_append :: "pystr \<Rightarrow> commit \<Rightarrow> categories \<Rightarrow> categories" where
  "dict_append k c d = map (\<lambda>(k', v). if k' = k then (k', v @ [c]) else (k', v)) d"

definition categorize_commits :: "(pystr \<Rightarrow> pystr) \<Rightarrow> commit list \<Rightarrow> categories" where
  "categorize_commits lower commits =
     foldl (\<lambda>d c. dict_append (category_of lower c) c d) categories_init commits"

text \<open>
  The priority table that the chain walks through, in the words of the specification:
  the first list with a keyword in the lower-cased message decides, and no match is the
  catch-all bucket.
\<close>

definition priority_table :: "(pystr list \<times> pystr) list" where
  "priority_table =
     [(feature_keywords, cat_feature), (bugfix_keywords, cat_bugfix),
      (docs_keywords, cat_docs), (refactor_keywords, cat_refactor),
      (test_keywords, cat_test)]"

definition first_match :: "pystr \<Rightarrow> pystr" where
  "first_match m =
     (case find (\<lambda>(kws, label). any_keyword_in kws m) priority_table of
        Some (kws, label) \<Rightarrow> label
      | None \<Rightarrow> cat_other)"

subsection \<open>Report builder: \<^verbatim>\<open>generate_report\<close>\<close>

text \<open>The fixed texts of the report.\<close>

definition txt_title :: pystr where \<comment> \<open>\<^verbatim>\<open># \u672c\u5468\u5de5\u4f5c\u5468\u62a5\<close>\<close>
  "txt_title = ascii ''# '' @ [26412, 21608, 24037, 20316, 21608, 25253]"

definition txt_no_commits :: pystr where
  \<comment> \<open>\<^verbatim>\<open>\n\n\u672c\u5468\u6682\u65e0\u4ee3\u7801\u63d0\u4ea4\u8bb0\u5f55\u3002\n\<close>\<close>
  "txt_no_commits =
     [10, 10, 26412, 21608, 26242, 26080, 20195, 30721, 25552, 20132, 35760, 24405, 12290,
      10]"

definition txt_period :: pystr where \<comment> \<open>\<^verbatim>\<open>**\u7edf\u8ba1\u65f6\u95f4**: \<close>\<close>
  "txt_period = ascii ''**'' @ [32479, 35745, 26102, 38388] @ ascii ''**: ''"

definition txt_summary_heading :: pystr where \<comment> \<open>\<^verbatim>\<open>## \U0001f3af \u672c\u5468\u603b\u7ed3\<close>\<close>
  "txt_summary_heading = ascii ''## '' @ [127919, 32, 26412, 21608, 24635, 32467]"

definition txt_stats_heading :: pystr where \<comment> \<open>\<^verbatim>\<open>## \U0001f4ca \u7edf\u8ba1\u6982\u89c8\<close>\<close>
  "txt_stats_heading = ascii ''## '' @ [128202, 32, 32479, 35745, 27010, 35272]"

definition txt_commit_count :: pystr where \<comment> \<open>\<^verbatim>\<open>- **\u63d0\u4ea4\u6b21\u6570**: \<close>\<close>
  "txt_commit_count = ascii ''- **'' @ [25552, 20132, 27425, 25968] @ ascii ''**: ''"

definition txt_times :: pystr where \<comment> \<open>\<^verbatim>\<open> \u6b21\<close>\<close>
  "txt_times = [32, 27425]"

definition txt_files_changed :: pystr where \<comment> \<open>\<^verbatim>\<open>- **\u6587\u4ef6\u53d8\u66f4**: \<close>\<close>
  "txt_files_changed = ascii ''- **'' @ [25991, 20214, 21464, 26356] @ ascii ''**: ''"

definition txt_files :: pystr where \<comment> \<open>\<^verbatim>\<open> \u4e2a\u6587\u4ef6\<close>\<close>
  "txt_files = [32, 20010, 25991, 20214]"

definition txt_added :: pystr where \<comment> \<open>\<^verbatim>\<open>- **\u4ee3\u7801\u65b0\u589e**: +\<close>\<close>
  "txt_added = ascii ''- **'' @ [20195, 30721, 26032, 22686] @ ascii ''**: +''"

definition txt_deleted :: pystr where \<comment> \<open>\<^verbatim>\<open>- **\u4ee3\u7801\u5220\u9664**: -\<close>\<close>
  "txt_deleted = ascii ''- **'' @ [20195, 30721, 21024, 38500] @ ascii ''**: -''"

definition txt_lines :: pystr where \<comment> \<open>\<^verbatim>\<open> \u884c\<close>\<close>
  "txt_lines = [32, 34892]"

definition txt_categories_heading :: pystr where
  \<comment> \<open>\<^verbatim>\<open>## \U0001f4cb \u5de5\u4f5c\u5206\u7c7b\<close>\<close>
  "txt_categories_heading = ascii ''## '' @ [128203, 32, 24037, 20316, 20998, 31867]"

definition txt_original :: pystr where \<comment> \<open>\<^verbatim>\<open>  *\u539f\u59cb*: \<close>\<close>
  "txt_original = ascii ''  *'' @ [21407, 22987] @ ascii ''*: ''"

definition txt_daily_heading :: pystr where \<comment> \<open>\<^verbatim>\<open>## \U0001f4c5 \u6bcf\u65e5\u8be6\u60c5\<close>\<close>
  "txt_daily_heading = ascii ''## '' @ [128197, 32, 27599, 26085, 35814, 24773]"

definition txt_file_unit :: pystr where \<comment> \<open>\<^verbatim>\<open> \u6587\u4ef6, +\<close>\<close>
  "txt_file_unit = [32, 25991, 20214] @ ascii '', +''"

text \<open>The title line, with the author when \<^verbatim>\<open>self.author\<close> is true.\<close>

definition title_line :: "git_weekly_report \<Rightarrow> pystr" where
  "title_line self =
     (case self_author self of
        Some a \<Rightarrow> (if a \<noteq> [] then txt_title @ ascii '' - '' @ a else txt_title)
      | None \<Rightarrow> txt_title)"

text \<open>
  \<^verbatim>\<open>commits_by_date\<close> (lines 278-283): a dictionary in insertion order, a new date
  getting an empty list before the commit is appended.
\<close>

definition by_date_add :: "categories \<Rightarrow> commit \<Rightarrow> categories" where
  "by_date_add d commit =
     dict_append (date commit) commit
       (if date commit \<notin> set (map fst d) then d @ [(date commit, [])] else d)"

definition commits_by_date :: "commit list \<Rightarrow> categories" where
  "commits_by_date commits = foldl by_date_add [] commits"

text \<open>
  \<^verbatim>\<open>sorted(keys, reverse=True)\<close>. The keys of a dictionary are distinct, so the stable
  descending sort is the reverse of the ascending one.
\<close>

definition sorted_reverse :: "pystr list \<Rightarrow> pystr list" where
  "sorted_reverse keys = rev (sort keys)"

text \<open>The totals loop (lines 290-298).\<close>

fun total_stats ::
  "env \<Rightarrow> git_weekly_report \<Rightarrow> commit list \<Rightarrow> int \<times> int \<times> int \<Rightarrow> exn + int \<times> int \<times> int" where
  "total_stats e self [] totals = Inr totals"
| "total_stats e self (commit # commits) (total_files, total_insertions, total_deletions) =
     (case get_commit_stats e self (hash commit) of
        Inl ex \<Rightarrow> Inl ex
      | Inr stats \<Rightarrow>
          total_stats e self commits
            (total_files + files_changed stats, total_insertions + insertions stats,
             total_deletions + deletions stats))"

definition stats_lines :: "nat \<Rightarrow> int \<times> int \<times> int \<Rightarrow> pystr list" where
  "stats_lines total_commits totals =
     (case totals of (total_files, total_insertions, total_deletions) \<Rightarrow>
        [txt_stats_heading, [],
         txt_commit_count @ str_int (int total_commits) @ txt_times,
         txt_files_changed @ str_int total_files @ txt_files,
         txt_added @ str_int total_insertions @ txt_lines,
         txt_deleted @ str_int total_deletions @ txt_lines,
         []])"

text \<open>The summary section (lines 311-318).\<close>

definition summary_lines :: "env \<Rightarrow> git_weekly_report \<Rightarrow> commit list \<Rightarrow> pystr list" where
  "summary_lines e self commits =
     (case llm self of
        None \<Rightarrow> []
      | Some l \<Rightarrow>
          if use_llm self then
            (let summary = generate_summary e l commits in
             if summary \<noteq> [] then [txt_summary_heading, [], summary, []] else [])
          else [])"

text \<open>The category section (lines 330-343).\<close>

definition category_commit_lines :: "git_weekly_report \<Rightarrow> commit \<Rightarrow> pystr list" where
  "category_commit_lines self commit =
     (case original_message commit of
        Some orig \<Rightarrow>
          if use_llm self
          then [ascii ''- **'' @ author commit @ ascii ''**: '' @ message commit,
                txt_original @ orig]
          else [ascii ''- **'' @ author commit @ ascii ''**: '' @ message commit]
      | None \<Rightarrow> [ascii ''- **'' @ author commit @ ascii ''**: '' @ message commit])"

definition category_heading :: "pystr \<Rightarrow> commit list \<Rightarrow> pystr" where
  "category_heading category category_commits =
     ascii ''### '' @ category @ ascii '' ('' @ str_int (int (length category_commits)) @
     ascii '')''"

definition category_lines :: "git_weekly_report \<Rightarrow> pystr \<times> commit list \<Rightarrow> pystr list" where
  "category_lines self item =
     (case item of (category, category_commits) \<Rightarrow>
        if category_commits \<noteq> []
        then [category_heading category category_commits] @
             concat (map (category_commit_lines self) category_commits) @ [[]]
        else [])"

definition category_section :: "git_weekly_report \<Rightarrow> categories \<Rightarrow> pystr list" where
  "category_section self categorized =
     [txt_categories_heading, []] @ concat (map (category_lines self) categorized)"

text \<open>The per-date section (lines 346-356); the stats are fetched again for each line.\<close>

definition date_commit_line :: "commit_stats \<Rightarrow> commit \<Rightarrow> pystr" where
  "date_commit_line stats commit =
     ascii ''- **'' @ author commit @ ascii ''** '' @
     (ascii ''('' @ str_int (files_changed stats) @ txt_file_unit @
      str_int (insertions stats) @ ascii ''/-'' @ str_int (deletions stats) @ ascii '')'') @
     ascii '': '' @ message commit"

fun date_commit_lines :: "env \<Rightarrow> git_weekly_report \<Rightarrow> commit list \<Rightarrow> exn + pystr list" where
  "date_commit_lines e self [] = Inr []"
| "date_commit_lines e self (commit # commits) =
     (case get_commit_stats e self (hash commit) of
        Inl ex \<Rightarrow> Inl ex
      | Inr stats \<Rightarrow>
          (case date_commit_lines e self commits of
             Inl ex \<Rightarrow> Inl ex
           | Inr ls \<Rightarrow> Inr (date_commit_line stats commit # ls)))"

fun date_groups ::
  "env \<Rightarrow> git_weekly_report \<Rightarrow> categories \<Rightarrow> pystr list \<Rightarrow> exn + pystr list" where
  "date_groups e self by_date [] = Inr []"
| "date_groups e self by_date (d # ds) =
     (case map_of by_date d of
        None \<Rightarrow> Inl KeyError
      | Some date_commits \<Rightarrow>
          (case date_commit_lines e self date_commits of
             Inl ex \<Rightarrow> Inl ex
           | Inr ls \<Rightarrow>
               (case date_groups e self by_date ds of
                  Inl ex \<Rightarrow> Inl ex
                | Inr rest \<Rightarrow> Inr ([ascii ''### '' @ d] @ ls @ [[]] @ rest))))"

definition date_section :: "env \<Rightarrow> git_weekly_report \<Rightarrow> categories \<Rightarrow> exn + pystr list" where
  "date_section e self by_date =
     (case date_groups e self by_date (sorted_reverse (map fst by_date)) of
        Inl ex \<Rightarrow> Inl ex
      | Inr ls \<Rightarrow> Inr ([txt_daily_heading, []] @ ls))"

text \<open>
  \<^verbatim>\<open>generate_report\<close>. \<open>report_commits\<close> is the value of \<^verbatim>\<open>commits\<close> after
  line 275, and \<open>report_lines\<close> the list \<^verbatim>\<open>report\<close> that line 358 joins.
\<close>

definition report_commits :: "env \<Rightarrow> git_weekly_report \<Rightarrow> commit list \<Rightarrow> commit list" where
  "report_commits e self commits =
     (if use_llm self then enhance_commit_messages e self commits else commits)"

definition header_lines :: "git_weekly_report \<Rightarrow> commit list \<Rightarrow> pystr list" where
  "header_lines self commits =
     [title_line self, [],
      txt_period @ date (hd commits) @ ascii '' ~ '' @ date (last commits), []]"

definition report_lines :: "env \<Rightarrow> git_weekly_report \<Rightarrow> commit list \<Rightarrow> exn + pystr list" where
  "report_lines e self commits0 =
     (let commits = report_commits e self commits0;
          by_date = commits_by_date commits;
          categorized = categorize_commits (str_lower e) commits
      in case total_stats e self commits (0, 0, 0) of
           Inl ex \<Rightarrow> Inl ex
         | Inr totals \<Rightarrow>
             (case date_section e self by_date of
                Inl ex \<Rightarrow> Inl ex
              | Inr daily \<Rightarrow>
                  Inr (header_lines self commits @ summary_lines e self commits @
                       stats_lines (length commits) totals @
                       category_section self categorized @ daily)))"

definition generate_report :: "env \<Rightarrow> git_weekly_report \<Rightarrow> commit list \<Rightarrow> exn + pystr" where
  "generate_report e self commits =
     (if commits = [] then Inr (title_line self @ txt_no_commits)
      else (case report_lines e self commits of
              Inl ex \<Rightarrow> Inl ex
            | Inr report \<Rightarrow> Inr (join [10] report)))"

section \<open>Sample inputs\<close>

text \<open>
  Concrete inputs for running the definitions: the two commits of the end-to-end scenario
  of the specification, a world in which every \<^verbatim>\<open>git\<close> call prints \<open>out\<close> and every
  API call has the outcome \<open>answer\<close>, and the generator objects that
  \<^verbatim>\<open>GitWeeklyReport(...)\<close> builds with and without the enhancer.
\<close>

definition sample_alice :: commit where
  "sample_alice =
     \<lparr>hash = ascii ''a1'', author = ascii ''Alice'', date = ascii ''2024-01-10'',
      message = ascii ''fix login bug'', original_message = None\<rparr>"

definition sample_bob :: commit where
  "sample_bob =
     \<lparr>hash = ascii ''b2'', author = ascii ''Bob'', date = ascii ''2024-01-10'',
      message = ascii ''add new dashboard'', original_message = None\<rparr>"

definition sample_env :: "run_outcome \<Rightarrow> post_outcome \<Rightarrow> env" where
  "sample_env out answer =
     \<lparr>str_lower = ascii_lower, subprocess_run = (\<lambda>cmd. out),
      requests_post = (\<lambda>req. answer)\<rparr>"

text \<open>A world whose API answers one request only, and raises for every other one.\<close>

definition sample_env_expecting :: "request \<Rightarrow> post_outcome \<Rightarrow> env" where
  "sample_env_expecting expected answer =
     \<lparr>str_lower = ascii_lower, subprocess_run = (\<lambda>cmd. Completed []),
      requests_post = (\<lambda>req. if req = expected then answer else RequestRaises)\<rparr>"

definition sample_plain :: git_weekly_report where
  "sample_plain = GitWeeklyReport (ascii ''.'') False None None None"

definition sample_enhancing :: git_weekly_report where
  "sample_enhancing = GitWeeklyReport (ascii ''.'') True (Some (ascii ''sk-1'')) None None"

definition sample_answer :: json where
  "sample_answer =
     JObj [(ascii ''choices'',
            JArr [JObj [(ascii ''message'',
                         JObj [(ascii ''content'', JStr (ascii '' done ''))])]])]"

section \<open>Notions used to state the properties of the report\<close>

text \<open>
  The stats of a commit hash as \<^verbatim>\<open>get_commit_stats\<close> returns them, and the condition under
  which it returns for every commit of a list: the \<^verbatim>\<open>git\<close> executable is found. A
  sub-heading of the report is a line that starts with \<^verbatim>\<open>### \<close>.
\<close>

definition stats_of :: "env \<Rightarrow> git_weekly_report \<Rightarrow> pystr \<Rightarrow> commit_stats" where
  "stats_of e self commit_hash =
     (case subprocess_run e (show_cmd self commit_hash) of
        Completed out \<Rightarrow> parse_stats out
      | CalledProcessError \<Rightarrow> zero_stats
      | FileNotFoundError \<Rightarrow> zero_stats)"

definition git_found :: "env \<Rightarrow> git_weekly_report \<Rightarrow> commit list \<Rightarrow> bool" where
  "git_found e self commits \<longleftrightarrow>
     list_all (\<lambda>c. subprocess_run e (show_cmd self (hash c)) \<noteq> FileNotFoundError) commits"

definition is_subheading :: "pystr \<Rightarrow> bool" where
  "is_subheading line \<longleftrightarrow> prefix (ascii ''### '') line"

section \<open>Properties of the string operations\<close>

lemma split_nonempty: "split sep s \<noteq> []"
  by (induction s) (auto split: list.splits)

lemma split_Cons_other:
  "x \<noteq> sep \<Longrightarrow> split sep (x # s) = (x # hd (split sep s)) # tl (split sep s)"
  using split_nonempty[of sep s] by (cases "split sep s") auto

lemma split_snoc_sep: "split sep (s @ [sep]) = split sep s @ [[]]"
proof (induction s)
  case Nil
  show ?case by simp
next
  case (Cons x s)
  show ?case
  proof (cases "x = sep")
    case True
    then show ?thesis using Cons.IH by simp
  next
    case False
    obtain p ps where p: "split sep s = p # ps"
      using split_nonempty[of sep s] by (cases "split sep s") auto
    then show ?thesis using False Cons.IH by simp
  qed
qed

lemma split_snoc_other:
  "x \<noteq> sep \<Longrightarrow>
   split sep (s @ [x]) = butlast (split sep s) @ [last (split sep s) @ [x]]"
proof (induction s)
  case Nil
  then show ?case by simp
next
  case (Cons y s)
  obtain p ps where p: "split sep s = p # ps"
    using split_nonempty[of sep s] by (cases "split sep s") auto
  obtain q qs where q: "split sep (s @ [x]) = q # qs"
    using split_nonempty[of sep "s @ [x]"] by (cases "split sep (s @ [x])") auto
  have ih: "q # qs = butlast (p # ps) @ [last (p # ps) @ [x]]"
    using Cons.IH[OF Cons.prems] p q by simp
  show ?case
  proof (cases "y = sep")
    case True
    then show ?thesis using ih p q by simp
  next
    case False
    show ?thesis
    proof (cases ps)
      case Nil
      then show ?thesis using False ih p q by simp
    next
      case (Cons a as)
      then show ?thesis using False ih p q by simp
    qed
  qed
qed

lemma split_rev: "split sep (rev s) = rev (map rev (split sep s))"
proof (induction s)
  case Nil
  show ?case by simp
next
  case (Cons x s)
  obtain p ps where p: "split sep s = p # ps"
    using split_nonempty[of sep s] by (cases "split sep s") auto
  show ?case
  proof (cases "x = sep")
    case True
    then show ?thesis using Cons.IH by (simp add: split_snoc_sep)
  next
    case False
    then show ?thesis using Cons.IH p
      by (simp add: split_snoc_other butlast_append)
  qed
qed

section \<open>Properties of the categorizer\<close>

lemma category_labels_distinct: "distinct category_labels"
  by (simp add: category_labels_def cat_feature_def cat_bugfix_def cat_docs_def
      cat_refactor_def cat_test_def cat_other_def ascii_def)

lemma categories_init_keys: "map fst categories_init = category_labels"
  by (simp add: categories_init_def category_labels_def)

lemma dict_append_keys: "map fst (dict_append k c d) = map fst d"
  by (induction d) (auto simp: dict_append_def)

lemma dict_append_lookup:
  "map_of (dict_append k c d) l =
     map_option (\<lambda>v. if l = k then v @ [c] else v) (map_of d l)"
  by (induction d) (auto simp: dict_append_def)

lemma categorize_fold_keys:
  "map fst (foldl (\<lambda>d c. dict_append (f c) c d) d0 cs) = map fst d0"
  by (induction cs arbitrary: d0) (simp_all add: dict_append_keys)

lemma categorize_fold_lookup:
  "map_of (foldl (\<lambda>d c. dict_append (f c) c d) d0 cs) l =
     map_option (\<lambda>v. v @ filter (\<lambda>c. f c = l) cs) (map_of d0 l)"
proof (induction cs arbitrary: d0)
  case Nil
  show ?case by (simp add: option.map_ident)
next
  case (Cons c cs)
  show ?case
    by (cases "map_of d0 l") (auto simp: Cons.IH dict_append_lookup)
qed

lemma category_of_label: "category_of lower c \<in> set category_labels"
  by (simp add: category_of_def category_labels_def Let_def)

lemma category_of_first_match: "category_of lower c = first_match (lower (message c))"
  by (simp add: category_of_def first_match_def priority_table_def Let_def)

lemma categories_init_lookup:
  "map_of categories_init l = (if l \<in> set category_labels then Some [] else None)"
  using category_labels_distinct
  by (auto simp: categories_init_def category_labels_def)

lemma categorize_commits_keys: "map fst (categorize_commits lower cs) = category_labels"
  by (simp add: categorize_commits_def categorize_fold_keys categories_init_keys)

lemma categorize_commits_lookup:
  "map_of (categorize_commits lower cs) l =
     (if l \<in> set category_labels then Some (filter (\<lambda>c. category_of lower c = l) cs)
      else None)"
  by (simp add: categorize_commits_def categorize_fold_lookup categories_init_lookup)

lemma dict_append_Nil: "dict_append k c [] = []"
  by (simp add: dict_append_def)

lemma dict_append_Cons:
  "dict_append k c ((l, v) # d) =
     (if l = k then (l, v @ [c]) else (l, v)) # dict_append k c d"
  by (simp add: dict_append_def)

lemma dict_append_absent: "k \<notin> set (map fst d) \<Longrightarrow> dict_append k c d = d"
  by (induction d) (auto simp: dict_append_Nil dict_append_Cons)

lemma dict_append_size:
  "distinct (map fst d) \<Longrightarrow> k \<in> set (map fst d) \<Longrightarrow>
   sum_list (map (\<lambda>(l, v). length v) (dict_append k c d)) =
     Suc (sum_list (map (\<lambda>(l, v). length v) d))"
proof (induction d)
  case Nil
  then show ?case by simp
next
  case (Cons p d)
  obtain l v where p: "p = (l, v)" by (cases p)
  show ?case
  proof (cases "l = k")
    case True
    with Cons.prems p have "k \<notin> set (map fst d)" by auto
    then have "dict_append k c d = d" by (rule dict_append_absent)
    then show ?thesis unfolding p by (simp add: dict_append_Cons True)
  next
    case False
    with Cons.prems p have "distinct (map fst d)" "k \<in> set (map fst d)" by auto
    then have "sum_list (map (\<lambda>(l, v). length v) (dict_append k c d)) =
        Suc (sum_list (map (\<lambda>(l, v). length v) d))"
      by (rule Cons.IH)
    then show ?thesis unfolding p by (simp add: dict_append_Cons False)
  qed
qed

lemma categorize_fold_size:
  "distinct (map fst d0) \<Longrightarrow> (\<forall>c. f c \<in> set (map fst d0)) \<Longrightarrow>
   sum_list (map (\<lambda>(l, v). length v) (foldl (\<lambda>d c. dict_append (f c) c d) d0 cs)) =
     sum_list (map (\<lambda>(l, v). length v) d0) + length cs"
proof (induction cs arbitrary: d0)
  case Nil
  show ?case by simp
next
  case (Cons c cs)
  have "distinct (map fst (dict_append (f c) c d0))"
    "\<forall>c'. f c' \<in> set (map fst (dict_append (f c) c d0))"
    using Cons.prems by (simp_all add: dict_append_keys)
  from Cons.IH[OF this] show ?case
    using Cons.prems by (simp add: dict_append_size)
qed

lemma categorize_commits_size:
  "sum_list (map (\<lambda>(l, v). length v) (categorize_commits lower cs)) = length cs"
proof -
  have d: "distinct (map fst categories_init)"
    by (simp add: categories_init_keys category_labels_distinct)
  have m: "\<forall>c. category_of lower c \<in> set (map fst categories_init)"
    by (simp add: categories_init_keys category_of_label)
  have z: "sum_list (map (\<lambda>(l, v). length v) categories_init) = 0"
    by (simp add: categories_init_def)
  show ?thesis
    unfolding categorize_commits_def categorize_fold_size[OF d m] z by simp
qed

lemma category_of_chain:
  "(any_keyword_in feature_keywords (lower (message c)) \<longrightarrow>
      category_of lower c = cat_feature) \<and>
   (\<not> any_keyword_in feature_keywords (lower (message c)) \<and>
    any_keyword_in bugfix_keywords (lower (message c)) \<longrightarrow>
      category_of lower c = cat_bugfix) \<and>
   (\<not> any_keyword_in feature_keywords (lower (message c)) \<and>
    \<not> any_keyword_in bugfix_keywords (lower (message c)) \<and>
    any_keyword_in docs_keywords (lower (message c)) \<longrightarrow>
      category_of lower c = cat_docs) \<and>
   (\<not> any_keyword_in feature_keywords (lower (message c)) \<and>
    \<not> any_keyword_in bugfix_keywords (lower (message c)) \<and>
    \<not> any_keyword_in docs_keywords (lower (message c)) \<and>
    any_keyword_in refactor_keywords (lower (message c)) \<longrightarrow>
      category_of lower c = cat_refactor) \<and>
   (\<not> any_keyword_in feature_keywords (lower (message c)) \<and>
    \<not> any_keyword_in bugfix_keywords (lower (message c)) \<and>
    \<not> any_keyword_in docs_keywords (lower (message c)) \<and>
    \<not> any_keyword_in refactor_keywords (lower (message c)) \<and>
    any_keyword_in test_keywords (lower (message c)) \<longrightarrow>
      category_of lower c = cat_test) \<and>
   (\<not> any_keyword_in feature_keywords (lower (message c)) \<and>
    \<not> any_keyword_in bugfix_keywords (lower (message c)) \<and>
    \<not> any_keyword_in docs_keywords (lower (message c)) \<and>
    \<not> any_keyword_in refactor_keywords (lower (message c)) \<and>
    \<not> any_keyword_in test_keywords (lower (message c)) \<longrightarrow>
      category_of lower c = cat_other)"
  by (simp add: category_of_def Let_def)

lemmas kw_eval = any_keyword_in_def feature_keywords_def bugfix_keywords_def docs_keywords_def refactor_keywords_def test_keywords_def ascii_def ascii_lower_def sublist_code

section \<open>Properties of the enhancer\<close>

lemma enhance_commit_messages_length: "length (enhance_commit_messages e self cs) = length cs"
  by (simp add: enhance_commit_messages_def split: option.splits)

lemma enhance_commit_messages_fields:
  "map hash (enhance_commit_messages e self cs) = map hash cs \<and>
   map author (enhance_commit_messages e self cs) = map author cs \<and>
   map date (enhance_commit_messages e self cs) = map date cs"
  by (simp add: enhance_commit_messages_def comp_def split: option.splits)

lemma enhance_commit_messages_enabled:
  "use_llm self \<Longrightarrow> llm self = Some l \<Longrightarrow>
   map original_message (enhance_commit_messages e self cs) = map (\<lambda>c. Some (message c)) cs \<and>
   map message (enhance_commit_messages e self cs) = map (\<lambda>c. enhance_commit_message e l (message c)) cs"
  by (simp add: enhance_commit_messages_def comp_def)

lemma enhance_commit_messages_unchanged:
  "\<not> use_llm self \<or> llm self = None \<Longrightarrow> enhance_commit_messages e self cs = cs"
  by (auto simp add: enhance_commit_messages_def split: option.splits)

lemma enhancer_no_key:
  "\<not> truthy (api_key l) \<Longrightarrow>
   enhance_commit_message e l m = m \<and> generate_summary e l cs = []"
  by (simp add: enhance_commit_message_def generate_summary_def)

lemma LLMEnhancer_no_key:
  "\<not> truthy key \<Longrightarrow> \<not> truthy getenv \<Longrightarrow> \<not> truthy (api_key (LLMEnhancer key mdl getenv))"
  by (simp add: LLMEnhancer_def py_or_def)

lemma enhance_commit_message_cases:
  "enhance_commit_message e l m = m \<or>
   (\<exists>b s. truthy (api_key l) \<and> requests_post e (enhance_request l m) = Response 200 b \<and>
      response_content b = Inr s \<and> enhance_commit_message e l m = s)"
  by (auto simp add: enhance_commit_message_def split: post_outcome.splits sum.splits)

lemma generate_summary_cases:
  "generate_summary e l cs = [] \<or>
   (\<exists>b s. truthy (api_key l) \<and> cs \<noteq> [] \<and>
      requests_post e (summary_request l cs) = Response 200 b \<and>
      response_content b = Inr s \<and> generate_summary e l cs = s)"
  by (auto simp add: generate_summary_def split: post_outcome.splits sum.splits)

lemma enhance_commit_message_failure:
  "requests_post e (enhance_request l m) = RequestRaises \<or>
   (\<exists>st b. requests_post e (enhance_request l m) = Response st b \<and>
      (st \<noteq> 200 \<or> (\<exists>ex. response_content b = Inl ex))) \<Longrightarrow>
   enhance_commit_message e l m = m"
  by (auto simp add: enhance_commit_message_def)

lemma generate_summary_failure:
  "requests_post e (summary_request l cs) = RequestRaises \<or>
   (\<exists>st b. requests_post e (summary_request l cs) = Response st b \<and>
      (st \<noteq> 200 \<or> (\<exists>ex. response_content b = Inl ex))) \<Longrightarrow>
   generate_summary e l cs = []"
  by (auto simp add: generate_summary_def)

lemma summary_request_take:
  "take 10 cs = take 10 cs' \<Longrightarrow> summary_request l cs = summary_request l cs'"
  by (simp add: summary_request_def commit_texts_def)

lemma generate_summary_take:
  assumes "take 10 cs = take 10 cs'"
  shows "generate_summary e l cs = generate_summary e l cs'"
proof -
  have "cs = [] \<longleftrightarrow> cs' = []"
    using assms by (metis take_eq_Nil zero_neq_numeral)
  then show ?thesis
    using summary_request_take[OF assms, of l] by (simp add: generate_summary_def)
qed

section \<open>Properties of the report for no commits\<close>

lemma sublist_skip: "h \<notin> set a \<Longrightarrow> sublist (h # r) (a @ t) = sublist (h # r) t"
  by (induction a) (auto simp: sublist_Cons_right)

lemma heading_marker_tail: "\<not> sublist (ascii ''## '') txt_no_commits"
  by (simp add: ascii_def txt_no_commits_def sublist_code)

lemma heading_marker_title:
  "sublist (ascii ''## '') (txt_title @ t) = sublist (ascii ''## '') t"
  by (simp add: ascii_def txt_title_def sublist_code)

lemma heading_marker_sep:
  "sublist (ascii ''## '') (ascii '' - '' @ t) = sublist (ascii ''## '') t"
  by (simp add: ascii_def sublist_code)

lemma heading_marker_author:
  "35 \<notin> set a \<Longrightarrow> sublist (ascii ''## '') (a @ t) = sublist (ascii ''## '') t"
  using sublist_skip[of 35 a "[35, 32]" t] by (simp add: ascii_def)

lemma title_line_cases:
  "(self_author self = Some a \<and> a \<noteq> [] \<longrightarrow> title_line self = txt_title @ ascii '' - '' @ a) \<and>
   (\<not> truthy (self_author self) \<longrightarrow> title_line self = txt_title)"
  by (auto simp add: title_line_def truthy_def split: option.splits)

lemma empty_report_no_heading:
  assumes "\<forall>a. self_author self = Some a \<longrightarrow> 35 \<notin> set a"
  shows "\<not> sublist (ascii ''## '') (title_line self @ txt_no_commits)"
proof (cases "self_author self")
  case None
  then show ?thesis
    by (simp add: title_line_def heading_marker_title heading_marker_tail)
next
  case (Some a)
  with assms have "35 \<notin> set a" by simp
  then show ?thesis using Some
    by (simp add: title_line_def heading_marker_title heading_marker_tail
        heading_marker_sep heading_marker_author)
qed

lemma section_headings_marked:
  "prefix (ascii ''## '') txt_summary_heading \<and> prefix (ascii ''## '') txt_stats_heading \<and>
   prefix (ascii ''## '') txt_categories_heading \<and> prefix (ascii ''## '') txt_daily_heading \<and>
   sublist (ascii ''## '') (category_heading k v) \<and> sublist (ascii ''## '') (ascii ''### '' @ d)"
  by (simp add: txt_summary_heading_def txt_stats_heading_def txt_categories_heading_def
      txt_daily_heading_def category_heading_def ascii_def sublist_code)

section \<open>Properties of the history fetcher\<close>

lemma split_max_length: "length (split_max sep n s) = Suc (min n (count_list s sep))"
proof (induction sep n s rule: split_max.induct)
  case (1 sep s)
  show ?case by simp
next
  case (2 sep n)
  show ?case by simp
next
  case (3 sep n x xs)
  show ?case
  proof (cases "x = sep")
    case True
    then show ?thesis using 3 by simp
  next
    case False
    then show ?thesis using 3 by (cases "split_max sep (Suc n) xs") auto
  qed
qed

lemma well_formed_count: "well_formed line \<longleftrightarrow> 3 \<le> count_list line 124"
  by (auto simp add: well_formed_def split_max_length min_def)

lemma well_formed_Nil: "\<not> well_formed []"
  by (simp add: well_formed_count)

lemma isspace_not_pipe: "isspace x \<Longrightarrow> x \<noteq> 124"
  by (auto simp add: isspace_def)

lemma well_formed_Cons_space: "isspace x \<Longrightarrow> well_formed (x # l) = well_formed l"
  by (simp add: well_formed_count isspace_not_pipe)

lemma count_list_rev: "count_list (rev l) y = count_list l y"
  by (induction l) (auto simp: count_list_append)

lemma well_formed_rev: "well_formed (rev l) = well_formed l"
  by (simp add: well_formed_count count_list_rev)

lemma filter_wf_Cons_space:
  "isspace x \<Longrightarrow>
   length (filter well_formed (split 10 (x # s))) = length (filter well_formed (split 10 s))"
proof (cases "x = 10")
  case True
  then show ?thesis by (simp add: well_formed_Nil)
next
  case False
  assume sp: "isspace x"
  obtain p ps where p: "split 10 s = p # ps"
    using split_nonempty[of 10 s] by (cases "split 10 s") auto
  show ?thesis using False p by (simp add: well_formed_Cons_space[OF sp])
qed

lemma filter_wf_dropWhile:
  "length (filter well_formed (split 10 (dropWhile isspace s))) =
   length (filter well_formed (split 10 s))"
  by (induction s) (simp_all add: filter_wf_Cons_space del: split.simps)

lemma filter_wf_rev:
  "length (filter well_formed (split 10 (rev s))) = length (filter well_formed (split 10 s))"
proof -
  have "filter well_formed (map rev ls) = map rev (filter well_formed ls)" for ls
    by (induction ls) (simp_all add: well_formed_rev)
  then show ?thesis
    by (simp add: split_rev rev_filter[symmetric])
qed

lemma filter_wf_strip:
  "length (filter well_formed (split 10 (strip s))) = length (filter well_formed (split 10 s))"
  unfolding strip_def
  by (simp only: filter_wf_rev filter_wf_dropWhile)

lemma parse_line_well_formed:
  "parse_line line =
     (if well_formed line
      then Some \<lparr>hash = split_max 124 3 line ! 0, author = split_max 124 3 line ! 1,
                 date = split_max 124 3 line ! 2, message = split_max 124 3 line ! 3,
                 original_message = None\<rparr>
      else None)"
  by (cases "line = []") (simp_all add: parse_line_def well_formed_def Let_def eval_nat_numeral)

lemma parse_fold:
  "foldl (\<lambda>commits line. case f line of Some c \<Rightarrow> commits @ [c] | None \<Rightarrow> commits) acc ls =
   acc @ List.map_filter f ls"
  by (induction ls arbitrary: acc) (auto split: option.splits)

lemma parse_lines_map_filter: "parse_lines ls = List.map_filter parse_line ls"
  by (simp add: parse_lines_def parse_fold)

lemma parse_lines_append: "parse_lines (xs @ ys) = parse_lines xs @ parse_lines ys"
  by (simp add: parse_lines_map_filter map_filter_def)

lemma parse_lines_Cons:
  "parse_lines (line # ys) =
     (case parse_line line of Some c \<Rightarrow> c # parse_lines ys | None \<Rightarrow> parse_lines ys)"
  by (simp add: parse_lines_map_filter split: option.splits)

lemma parse_lines_length: "length (parse_lines ls) = length (filter well_formed ls)"
proof (induction ls)
  case Nil
  show ?case by (simp add: parse_lines_def)
next
  case (Cons l ls)
  show ?case
    by (cases "well_formed l") (simp_all add: parse_lines_Cons parse_line_well_formed Cons.IH)
qed

lemma parse_log_length: "length (parse_log out) = length (filter well_formed (split 10 out))"
  by (simp add: parse_log_def parse_lines_length filter_wf_strip)

lemma split_no_sep: "sep \<notin> set x \<Longrightarrow> split sep x = [x]"
  by (induction x) auto

lemma split_line_Cons: "sep \<notin> set x \<Longrightarrow> split sep (x @ sep # r) = x # split sep r"
  by (induction x) auto

lemma split_join_Cons:
  "\<forall>l\<in>set (x # ls). sep \<notin> set l \<Longrightarrow> split sep (join [sep] (x # ls)) = x # ls"
proof (induction ls arbitrary: x)
  case Nil
  then show ?case by (simp add: split_no_sep)
next
  case (Cons y ys)
  have "split sep (join [sep] (y # ys)) = y # ys"
    using Cons.prems by (intro Cons.IH) simp
  then show ?case using Cons.prems by (simp add: split_line_Cons)
qed

lemma parse_log_join_length:
  assumes "\<forall>l\<in>set ls. 10 \<notin> set l"
  shows "length (parse_log (join [10] ls)) = length (filter well_formed ls)"
proof (cases ls)
  case Nil
  then show ?thesis by (simp add: parse_log_length well_formed_Nil)
next
  case (Cons x xs)
  then show ?thesis using assms split_join_Cons[of x xs 10]
    by (simp only: parse_log_length)
qed
lemma join_inject:
  assumes "xs \<noteq> []" "ys \<noteq> []" "\<forall>l\<in>set xs. sep \<notin> set l" "\<forall>l\<in>set ys. sep \<notin> set l"
    and j: "join [sep] xs = join [sep] ys"
  shows "xs = ys"
proof -
  obtain x xs' where x: "xs = x # xs'" using assms(1) by (cases xs) auto
  obtain y ys' where y: "ys = y # ys'" using assms(2) by (cases ys) auto
  have a: "split sep (join [sep] (x # xs')) = x # xs'"
    using assms(3) unfolding x by (rule split_join_Cons)
  have b: "split sep (join [sep] (y # ys')) = y # ys'"
    using assms(4) unfolding y by (rule split_join_Cons)
  have "split sep (join [sep] (x # xs')) = split sep (join [sep] (y # ys'))"
    using j unfolding x y by (rule arg_cong)
  then have "x # xs' = y # ys'" unfolding a b .
  then show ?thesis unfolding x y .
qed

section \<open>Properties of the stat fetcher\<close>

lemma int_of_digits_fold_nonneg: "0 \<le> a \<Longrightarrow> 0 \<le> foldl (\<lambda>a d. 10 * a + int (d - 48)) a ds"
  by (induction ds arbitrary: a) simp_all

lemma int_of_digits_nonneg: "0 \<le> int_of_digits ds"
  by (simp add: int_of_digits_def int_of_digits_fold_nonneg)

lemma int_of_digits_snoc: "int_of_digits (ds @ [d]) = 10 * int_of_digits ds + int (d - 48)"
  by (simp add: int_of_digits_def)

lemma update_stats_nonneg:
  "0 \<le> files_changed s \<and> 0 \<le> insertions s \<and> 0 \<le> deletions s \<Longrightarrow>
   0 \<le> files_changed (update_stats s line) \<and> 0 \<le> insertions (update_stats s line) \<and>
   0 \<le> deletions (update_stats s line)"
  by (auto simp add: update_stats_def Let_def int_of_digits_nonneg split: option.splits)

lemma fold_update_stats_nonneg:
  "0 \<le> files_changed s \<and> 0 \<le> insertions s \<and> 0 \<le> deletions s \<Longrightarrow>
   0 \<le> files_changed (foldl update_stats s ls) \<and> 0 \<le> insertions (foldl update_stats s ls) \<and>
   0 \<le> deletions (foldl update_stats s ls)"
proof (induction ls arbitrary: s)
  case Nil
  then show ?case by simp
next
  case (Cons l ls)
  from update_stats_nonneg[OF Cons.prems, of l] show ?case
    using Cons.IH[of "update_stats s l"] by simp
qed

lemma parse_stats_nonneg:
  "0 \<le> files_changed (parse_stats out) \<and> 0 \<le> insertions (parse_stats out) \<and>
   0 \<le> deletions (parse_stats out)"
  unfolding parse_stats_def
  by (rule fold_update_stats_nonneg) (simp add: zero_stats_def)

lemma split_Cons_lines:
  "l \<in> set (split sep s) \<Longrightarrow> \<exists>l'\<in>set (split sep (x # s)). sublist l l'"
proof (cases "x = sep")
  case True
  assume "l \<in> set (split sep s)"
  then show ?thesis using True by auto
next
  case False
  assume l: "l \<in> set (split sep s)"
  obtain p ps where p: "split sep s = p # ps"
    using split_nonempty[of sep s] by (cases "split sep s") auto
  have s: "split sep (x # s) = (x # p) # ps" using False p by simp
  show ?thesis
  proof (cases "l = p")
    case True
    have "sublist p (x # p)" by (simp add: sublist_Cons_right)
    then show ?thesis using True s by auto
  next
    case False
    then have "l \<in> set ps" using l p by simp
    then show ?thesis using s by auto
  qed
qed

lemma split_dropWhile_lines:
  "l \<in> set (split sep (dropWhile P s)) \<Longrightarrow> \<exists>l'\<in>set (split sep s). sublist l l'"
proof (induction s)
  case Nil
  then show ?case by auto
next
  case (Cons x s)
  show ?case
  proof (cases "P x")
    case True
    with Cons obtain l' where l': "l' \<in> set (split sep s)" "sublist l l'" by auto
    from split_Cons_lines[OF l'(1), of x] obtain l'' where
      "l'' \<in> set (split sep (x # s))" "sublist l' l''" by blast
    then show ?thesis using l'(2) sublist_order.order_trans by blast
  next
    case False
    then show ?thesis using Cons.prems by auto
  qed
qed

lemma split_strip_lines:
  assumes "l \<in> set (split sep (strip s))"
  shows "\<exists>l'\<in>set (split sep s). sublist l l'"
proof -
  let ?t = "dropWhile isspace s"
  from assms have "rev l \<in> set (split sep (dropWhile isspace (rev ?t)))"
    by (auto simp add: strip_def split_rev)
  then obtain l1 where l1: "l1 \<in> set (split sep (rev ?t))" "sublist (rev l) l1"
    using split_dropWhile_lines by blast
  from l1(1) have "rev l1 \<in> set (split sep ?t)"
    by (auto simp add: split_rev)
  then obtain l2 where l2: "l2 \<in> set (split sep s)" "sublist (rev l1) l2"
    using split_dropWhile_lines by blast
  have "sublist l (rev l1)" using l1(2) by (simp add: sublist_rev_left)
  then have "sublist l l2" using l2(2) sublist_order.order_trans by blast
  then show ?thesis using l2(1) by blast
qed

lemma update_stats_skip:
  "\<not> (sublist (ascii ''file'') line \<and> sublist (ascii ''changed'') line) \<Longrightarrow>
   update_stats s line = s"
proof -
  assume a: "\<not> (sublist (ascii ''file'') line \<and> sublist (ascii ''changed'') line)"
  have "sublist (ascii ''file'') (ascii '' file'')"
    by (simp add: ascii_def sublist_code)
  then have "sublist (ascii '' file'') line \<Longrightarrow> sublist (ascii ''file'') line"
    using sublist_order.order_trans by blast
  then show ?thesis using a by (auto simp add: update_stats_def)
qed

lemma fold_update_stats_skip:
  "\<forall>line\<in>set ls. \<not> (sublist (ascii ''file'') line \<and> sublist (ascii ''changed'') line) \<Longrightarrow>
   foldl update_stats s ls = s"
  by (induction ls arbitrary: s) (simp_all add: update_stats_skip)

lemma parse_stats_no_summary_line:
  assumes "\<forall>line\<in>set (split 10 out).
     \<not> (sublist (ascii ''file'') line \<and> sublist (ascii ''changed'') line)"
  shows "parse_stats out = zero_stats"
proof -
  have "\<forall>line\<in>set (split 10 (strip out)).
     \<not> (sublist (ascii ''file'') line \<and> sublist (ascii ''changed'') line)"
  proof
    fix line assume "line \<in> set (split 10 (strip out))"
    then obtain l' where l': "l' \<in> set (split 10 out)" "sublist line l'"
      using split_strip_lines by blast
    show "\<not> (sublist (ascii ''file'') line \<and> sublist (ascii ''changed'') line)"
      using assms l' sublist_order.order_trans by blast
  qed
  then show ?thesis by (simp add: parse_stats_def fold_update_stats_skip)
qed
lemma str_nat_digits: "str_nat n \<noteq> [] \<and> (\<forall>c\<in>set (str_nat n). isdigit c)"
proof (induction n rule: str_nat.induct)
  case (1 n)
  show ?case
  proof (cases "n < 10")
    case True
    then show ?thesis by (subst (1 2) str_nat.simps) (simp add: isdigit_def)
  next
    case False
    have "n mod 10 < 10" by simp
    then have "isdigit (48 + n mod 10)" unfolding isdigit_def by linarith
    then show ?thesis using False 1 by (subst (1 2) str_nat.simps) simp
  qed
qed

lemma int_of_digits_str_nat: "int_of_digits (str_nat n) = int n"
proof (induction n rule: str_nat.induct)
  case (1 n)
  show ?case
  proof (cases "n < 10")
    case True
    then show ?thesis by (subst str_nat.simps) (simp add: int_of_digits_def)
  next
    case False
    then have "int_of_digits (str_nat n) = 10 * int (n div 10) + int (n mod 10)"
      using 1 by (subst str_nat.simps) (simp add: int_of_digits_snoc)
    then show ?thesis by (simp add: zdiv_int zmod_int)
  qed
qed

lemma isdigit_not_space: "isdigit c \<Longrightarrow> \<not> isspace c"
  by (auto simp add: isdigit_def isspace_def)

lemma match_at_digits:
  assumes "ds \<noteq> []" "\<forall>c\<in>set ds. isdigit c" "isspace x"
  shows "match_at w (ds @ x # t) =
     (if prefix w (dropWhile isspace t) then Some ds else None)"
proof -
  have nd: "\<not> isdigit x" using assms(3) isdigit_not_space by blast
  have tw: "takeWhile isdigit (ds @ x # t) = ds"
    using assms(2) nd by (simp add: takeWhile_append2)
  have dw: "dropWhile isdigit (ds @ x # t) = x # t"
    using assms(2) nd by (simp add: dropWhile_append2)
  have le: "length (dropWhile isspace t) < length (x # t)"
    using length_dropWhile_le[of isspace t] by simp
  show ?thesis
    unfolding match_at_def tw dw Let_def using assms(1,3) le by simp
qed

lemma re_search_digits_found:
  assumes "ds \<noteq> []" "\<forall>c\<in>set ds. isdigit c" "isspace x" "prefix w (dropWhile isspace t)"
  shows "re_search w (ds @ x # t) = Some ds"
proof -
  obtain d ds' where d: "ds = d # ds'" using assms(1) by (cases ds) auto
  have "match_at w (ds @ x # t) = Some ds"
    using match_at_digits[OF assms(1,2,3)] assms(4) by simp
  then show ?thesis unfolding d by simp
qed

lemma re_search_digits_skip:
  assumes "\<forall>c\<in>set ds. isdigit c" "isspace x" "\<not> prefix w (dropWhile isspace t)"
  shows "re_search w (ds @ x # t) = re_search w (x # t)"
  using assms(1)
proof (induction ds)
  case Nil
  show ?case by simp
next
  case (Cons d ds)
  have "match_at w ((d # ds) @ x # t) = None"
    using match_at_digits[of "d # ds" x w t] Cons.prems assms(2,3) by simp
  then show ?case using Cons by simp
qed

lemma strip_count_line:
  assumes "ds \<noteq> []" "\<forall>c\<in>set ds. isdigit c" "t \<noteq> []" "\<not> isspace (last t)"
  shows "strip (32 # ds @ t @ [10]) = ds @ t"
proof -
  obtain d ds' where d: "ds = d # ds'" using assms(1) by (cases ds) auto
  have nd: "\<not> isspace d" using assms(2) d isdigit_not_space by simp
  have s: "isspace 32" "isspace 10" by (simp_all add: isspace_def)
  have 1: "dropWhile isspace (32 # ds @ t @ [10]) = ds @ t @ [10]"
    using s nd d by simp
  obtain t' z where t: "t = t' @ [z]" using assms(3) by (metis rev_exhaust)
  have nz: "\<not> isspace z" using assms(4) t by simp
  have 2: "dropWhile isspace (rev (ds @ t @ [10])) = rev (ds @ t)"
    using s nz t by simp
  show ?thesis unfolding strip_def 1 2 by simp
qed
lemma re_search_no_digit: "\<forall>c\<in>set s. \<not> isdigit c \<Longrightarrow> re_search w s = None"
proof (induction s)
  case Nil
  show ?case by simp
next
  case (Cons x s)
  have "takeWhile isdigit (x # s) = []" using Cons.prems by simp
  then have "match_at w (x # s) = None" by (simp add: match_at_def)
  then show ?case using Cons by simp
qed

lemma parse_stats_count_only:
  assumes t: "t = ascii ''file changed'' \<or> t = ascii ''files changed''"
  shows "parse_stats (32 # str_nat n @ 32 # t @ [10]) =
     \<lparr>files_changed = int n, insertions = 0, deletions = 0\<rparr>"
proof -
  let ?ds = "str_nat n"
  let ?line = "?ds @ 32 # t"
  have ds: "?ds \<noteq> []" "\<forall>c\<in>set ?ds. isdigit c"
    using str_nat_digits[of n] by simp_all
  have sp: "isspace 32" by (simp add: isspace_def)
  have tl: "32 # t \<noteq> []" "\<not> isspace (last (32 # t))"
    using t by (auto simp add: ascii_def isspace_def)
  have st: "strip (32 # ?ds @ 32 # t @ [10]) = ?line"
    using strip_count_line[OF ds tl] by simp
  have nn: "10 \<notin> set ?line"
    using ds(2) t by (auto simp add: ascii_def isdigit_def)
  have ln: "split 10 ?line = [?line]"
    using nn by (rule split_no_sep)
  have f1: "sublist (ascii '' file'') ?line"
  proof -
    obtain u where "32 # t = ascii '' file'' @ u"
      using t by (auto simp add: ascii_def)
    then have "?line = ?ds @ ascii '' file'' @ u" by simp
    then show ?thesis by (metis sublist_appendI)
  qed
  have f2: "sublist (ascii ''changed'') ?line"
  proof -
    obtain u where "32 # t = u @ ascii ''changed''"
      using t by (auto simp add: ascii_def)
    then have "?line = (?ds @ u) @ ascii ''changed''" by simp
    then show ?thesis by (metis sublist_append_leftI)
  qed
  have pf: "prefix (ascii ''file'') (dropWhile isspace t)"
    using t by (auto simp add: ascii_def isspace_def)
  have r1: "re_search (ascii ''file'') ?line = Some ?ds"
    using re_search_digits_found[OF ds sp pf] .
  have tn: "\<forall>c\<in>set (32 # t). \<not> isdigit c"
    using t by (auto simp add: ascii_def isdigit_def)
  have np: "\<not> prefix (ascii ''insertion'') (dropWhile isspace t)"
    "\<not> prefix (ascii ''deletion'') (dropWhile isspace t)"
    using t by (auto simp add: ascii_def isspace_def)
  have r2: "re_search (ascii ''insertion'') ?line = None"
    using re_search_digits_skip[OF ds(2) sp np(1)] re_search_no_digit[OF tn] by simp
  have r3: "re_search (ascii ''deletion'') ?line = None"
    using re_search_digits_skip[OF ds(2) sp np(2)] re_search_no_digit[OF tn] by simp
  have "update_stats zero_stats ?line = \<lparr>files_changed = int n, insertions = 0, deletions = 0\<rparr>"
    unfolding update_stats_def Let_def r1 r2 r3
    using f1 f2 by (simp add: zero_stats_def int_of_digits_str_nat)
  then show ?thesis
    unfolding parse_stats_def st ln by simp
qed

lemma get_commit_stats_missing_executable:
  "subprocess_run e (show_cmd self h) = FileNotFoundError \<Longrightarrow>
   get_commit_stats e self h = Inl FileNotFoundError_raised"
  by (simp add: get_commit_stats_def)

text \<open>
  What \<^verbatim>\<open>get_commit_stats\<close> does when the tool runs: it returns the stats parsed from
  the output, with non-negative counts; they are all zero when no line of the output
  contains both \<^verbatim>\<open>file\<close> and \<^verbatim>\<open>changed\<close>, and when the run exits with a non-zero
  status; a summary line with only a file count \<open>n\<close> gives \<open>n\<close> files and no insertions
  or deletions.
\<close>

lemma get_commit_stats_defaults:
  "(subprocess_run e (show_cmd self h) = Completed out \<longrightarrow>
      get_commit_stats e self h = Inr (parse_stats out)) \<and>
   0 \<le> files_changed (parse_stats out) \<and> 0 \<le> insertions (parse_stats out) \<and>
   0 \<le> deletions (parse_stats out) \<and>
   ((\<forall>line\<in>set (split 10 out).
       \<not> (sublist (ascii ''file'') line \<and> sublist (ascii ''changed'') line)) \<longrightarrow>
      parse_stats out = zero_stats) \<and>
   (subprocess_run e (show_cmd self h) = CalledProcessError \<longrightarrow>
      get_commit_stats e self h = Inr zero_stats) \<and>
   zero_stats = \<lparr>files_changed = 0, insertions = 0, deletions = 0\<rparr> \<and>
   parse_stats (32 # str_nat n @ 32 # ascii ''file changed'' @ [10]) =
     \<lparr>files_changed = int n, insertions = 0, deletions = 0\<rparr> \<and>
   parse_stats (32 # str_nat n @ 32 # ascii ''files changed'' @ [10]) =
     \<lparr>files_changed = int n, insertions = 0, deletions = 0\<rparr>"
proof -
  have a: "subprocess_run e (show_cmd self h) = Completed out \<longrightarrow>
      get_commit_stats e self h = Inr (parse_stats out)"
    by (simp add: get_commit_stats_def)
  have b: "subprocess_run e (show_cmd self h) = CalledProcessError \<longrightarrow>
      get_commit_stats e self h = Inr zero_stats"
    by (simp add: get_commit_stats_def)
  have z: "(\<forall>line\<in>set (split 10 out).
       \<not> (sublist (ascii ''file'') line \<and> sublist (ascii ''changed'') line)) \<longrightarrow>
      parse_stats out = zero_stats"
    using parse_stats_no_summary_line[of out] by blast
  have c1: "parse_stats (32 # str_nat n @ 32 # ascii ''file changed'' @ [10]) =
     \<lparr>files_changed = int n, insertions = 0, deletions = 0\<rparr>"
    by (rule parse_stats_count_only) simp
  have c2: "parse_stats (32 # str_nat n @ 32 # ascii ''files changed'' @ [10]) =
     \<lparr>files_changed = int n, insertions = 0, deletions = 0\<rparr>"
    by (rule parse_stats_count_only) simp
  show ?thesis
    using a b z c1 c2 parse_stats_nonneg[of out] zero_stats_def by blast
qed

lemma get_commit_stats_defaults_example:
  "(let out = ascii '' README.md | 2 +-'' @ [10] @
             ascii '' 1 file changed, 1 insertion(+), 1 deletion(-)'' @ [10];
        noise = ascii ''fatal: nothing to show'';
        h = ascii ''a1''
    in subprocess_run (sample_env (Completed out) RequestRaises) (show_cmd sample_plain h) =
         Completed out \<and>
       get_commit_stats (sample_env (Completed out) RequestRaises) sample_plain h =
         Inr \<lparr>files_changed = 1, insertions = 1, deletions = 1\<rparr> \<and>
       split 10 noise = [noise] \<and>
       \<not> sublist (ascii ''file'') noise \<and> \<not> sublist (ascii ''changed'') noise \<and>
       parse_stats noise = \<lparr>files_changed = 0, insertions = 0, deletions = 0\<rparr> \<and>
       subprocess_run (sample_env CalledProcessError RequestRaises) (show_cmd sample_plain h) =
         CalledProcessError \<and>
       get_commit_stats (sample_env CalledProcessError RequestRaises) sample_plain h =
         Inr \<lparr>files_changed = 0, insertions = 0, deletions = 0\<rparr> \<and>
       parse_stats (ascii '' 3 files changed'' @ [10]) =
         \<lparr>files_changed = 3, insertions = 0, deletions = 0\<rparr>)"
proof -
  define out where "out = ascii '' README.md | 2 +-'' @ [10] @
             ascii '' 1 file changed, 1 insertion(+), 1 deletion(-)'' @ [10]"
  define noise where "noise = ascii ''fatal: nothing to show''"
  define h where "h = ascii ''a1''"
  define e1 where "e1 = sample_env (Completed out) RequestRaises"
  define e2 where "e2 = sample_env CalledProcessError RequestRaises"
  note inst1 = get_commit_stats_defaults[where e = e1 and self = sample_plain and h = h
      and out = out and n = 3]
  note inst2 = get_commit_stats_defaults[where e = e2 and self = sample_plain and h = h
      and out = noise and n = 3]
  have r1: "subprocess_run e1 (show_cmd sample_plain h) = Completed out"
    by (simp add: e1_def sample_env_def)
  have r2: "subprocess_run e2 (show_cmd sample_plain h) = CalledProcessError"
    by (simp add: e2_def sample_env_def)
  have p: "parse_stats out = \<lparr>files_changed = 1, insertions = 1, deletions = 1\<rparr>"
    by (simp add: out_def parse_stats_def strip_def isspace_def isdigit_def ascii_def
        update_stats_def match_at_def int_of_digits_def zero_stats_def sublist_code Let_def)
  have g1: "get_commit_stats e1 sample_plain h =
      Inr \<lparr>files_changed = 1, insertions = 1, deletions = 1\<rparr>"
    using inst1 r1 p by simp
  have sn: "split 10 noise = [noise]"
    by (simp add: noise_def ascii_def)
  have nf: "\<not> sublist (ascii ''file'') noise" "\<not> sublist (ascii ''changed'') noise"
    by (simp_all add: noise_def ascii_def sublist_code)
  have nz: "\<forall>line\<in>set (split 10 noise).
      \<not> (sublist (ascii ''file'') line \<and> sublist (ascii ''changed'') line)"
    using sn nf by simp
  have z: "zero_stats = \<lparr>files_changed = 0, insertions = 0, deletions = 0\<rparr>"
    using inst2 by blast
  have "parse_stats noise = zero_stats"
    using inst2 nz by blast
  then have pz: "parse_stats noise = \<lparr>files_changed = 0, insertions = 0, deletions = 0\<rparr>"
    unfolding z .
  have "get_commit_stats e2 sample_plain h = Inr zero_stats"
    using inst2 r2 by blast
  then have g2: "get_commit_stats e2 sample_plain h =
      Inr \<lparr>files_changed = 0, insertions = 0, deletions = 0\<rparr>"
    unfolding z .
  have s3: "str_nat 3 = ascii ''3''"
    by (subst str_nat.simps) (simp add: ascii_def)
  have "parse_stats (32 # str_nat 3 @ 32 # ascii ''files changed'' @ [10]) =
     \<lparr>files_changed = int 3, insertions = 0, deletions = 0\<rparr>"
    using inst2 by blast
  then have c: "parse_stats (ascii '' 3 files changed'' @ [10]) =
     \<lparr>files_changed = 3, insertions = 0, deletions = 0\<rparr>"
    by (simp add: s3 ascii_def)
  have all: "subprocess_run e1 (show_cmd sample_plain h) = Completed out \<and>
       get_commit_stats e1 sample_plain h =
         Inr \<lparr>files_changed = 1, insertions = 1, deletions = 1\<rparr> \<and>
       split 10 noise = [noise] \<and>
       \<not> sublist (ascii ''file'') noise \<and> \<not> sublist (ascii ''changed'') noise \<and>
       parse_stats noise = \<lparr>files_changed = 0, insertions = 0, deletions = 0\<rparr> \<and>
       subprocess_run e2 (show_cmd sample_plain h) = CalledProcessError \<and>
       get_commit_stats e2 sample_plain h =
         Inr \<lparr>files_changed = 0, insertions = 0, deletions = 0\<rparr> \<and>
       parse_stats (ascii '' 3 files changed'' @ [10]) =
         \<lparr>files_changed = 3, insertions = 0, deletions = 0\<rparr>"
    using r1 g1 sn nf pz r2 g2 c by blast
  show ?thesis
    unfolding Let_def using all
    unfolding out_def noise_def h_def e1_def e2_def .
qed

lemma total_stats_first_missing:
  "get_commit_stats e self (hash c) = Inl ex \<Longrightarrow> total_stats e self (c # cs) totals = Inl ex"
  by (cases totals) simp

section \<open>Properties of the report builder\<close>

lemma get_commit_stats_found:
  "subprocess_run e (show_cmd self (hash c)) \<noteq> FileNotFoundError \<Longrightarrow>
   get_commit_stats e self (hash c) = Inr (stats_of e self (hash c))"
  by (simp add: get_commit_stats_def stats_of_def split: run_outcome.splits)

lemma git_found_Cons:
  "git_found e self (c # cs) \<longleftrightarrow>
     subprocess_run e (show_cmd self (hash c)) \<noteq> FileNotFoundError \<and> git_found e self cs"
  by (simp add: git_found_def)

lemma git_found_hashes:
  "map hash cs' = map hash cs \<Longrightarrow> git_found e self cs' = git_found e self cs"
proof (induction cs' arbitrary: cs)
  case Nil
  then show ?case by simp
next
  case (Cons c cs')
  then obtain d ds where d: "cs = d # ds" "hash c = hash d" "map hash cs' = map hash ds"
    by (cases cs) auto
  then show ?case using Cons.IH[of ds] by (simp add: git_found_Cons)
qed

lemma git_found_subset:
  "git_found e self cs \<Longrightarrow> set cs' \<subseteq> set cs \<Longrightarrow> git_found e self cs'"
  by (auto simp add: git_found_def list_all_iff)

lemma total_stats_found:
  "git_found e self cs \<Longrightarrow>
   total_stats e self cs (f, i, d) =
     Inr (f + sum_list (map (\<lambda>c. files_changed (stats_of e self (hash c))) cs),
          i + sum_list (map (\<lambda>c. insertions (stats_of e self (hash c))) cs),
          d + sum_list (map (\<lambda>c. deletions (stats_of e self (hash c))) cs))"
proof (induction cs arbitrary: f i d)
  case Nil
  show ?case by simp
next
  case (Cons c cs)
  then have a: "get_commit_stats e self (hash c) = Inr (stats_of e self (hash c))"
    and b: "git_found e self cs"
    by (simp_all add: git_found_Cons get_commit_stats_found)
  show ?case by (simp add: a Cons.IH[OF b] add.assoc)
qed

lemma date_commit_lines_found:
  "git_found e self cs \<Longrightarrow>
   date_commit_lines e self cs =
     Inr (map (\<lambda>c. date_commit_line (stats_of e self (hash c)) c) cs)"
proof (induction cs)
  case Nil
  show ?case by simp
next
  case (Cons c cs)
  then have a: "get_commit_stats e self (hash c) = Inr (stats_of e self (hash c))"
    and b: "git_found e self cs"
    by (simp_all add: git_found_Cons get_commit_stats_found)
  show ?case by (simp add: a Cons.IH[OF b])
qed

lemma by_date_add_keys:
  "map fst (by_date_add d c) =
     (if date c \<in> set (map fst d) then map fst d else map fst d @ [date c])"
  by (simp add: by_date_add_def dict_append_keys)

lemma by_date_add_lookup:
  "map_of (by_date_add d c) k =
     (if k = date c
      then Some ((case map_of d k of Some v \<Rightarrow> v | None \<Rightarrow> []) @ [c])
      else map_of d k)"
proof (cases "date c \<in> set (map fst d)")
  case True
  then obtain v where v: "map_of d (date c) = Some v"
    by (metis map_of_eq_None_iff not_Some_eq set_map)
  show ?thesis
  proof (cases "k = date c")
    case k: True
    then show ?thesis using True v by (simp add: by_date_add_def dict_append_lookup)
  next
    case k: False
    then show ?thesis using True
      by (cases "map_of d k") (simp_all add: by_date_add_def dict_append_lookup)
  qed
next
  case False
  then have n: "map_of d (date c) = None"
    by (simp add: map_of_eq_None_iff)
  show ?thesis
  proof (cases "k = date c")
    case k: True
    then show ?thesis using False n
      by (simp add: by_date_add_def dict_append_lookup map_add_def)
  next
    case k: False
    then show ?thesis using False
      by (cases "map_of d k")
        (simp_all add: by_date_add_def dict_append_lookup map_add_def)
  qed
qed

lemma commits_by_date_fold_keys:
  "set (map fst (foldl by_date_add d cs)) = set (map fst d) \<union> date ` set cs"
proof (induction cs arbitrary: d)
  case Nil
  show ?case by simp
next
  case (Cons c cs)
  have "set (map fst (by_date_add d c)) = set (map fst d) \<union> {date c}"
    by (auto simp add: by_date_add_keys)
  then show ?case using Cons.IH[of "by_date_add d c"] by auto
qed

lemma commits_by_date_fold_distinct:
  "distinct (map fst d) \<Longrightarrow> distinct (map fst (foldl by_date_add d cs))"
proof (induction cs arbitrary: d)
  case Nil
  then show ?case by simp
next
  case (Cons c cs)
  have "distinct (map fst (by_date_add d c))"
    using Cons.prems by (auto simp add: by_date_add_keys)
  then show ?case using Cons.IH[of "by_date_add d c"] by simp
qed

lemma commits_by_date_fold_lookup:
  "map_of (foldl by_date_add d cs) k =
     (if k \<in> date ` set cs
      then Some ((case map_of d k of Some v \<Rightarrow> v | None \<Rightarrow> []) @ filter (\<lambda>c. date c = k) cs)
      else map_of d k)"
proof (induction cs arbitrary: d)
  case Nil
  show ?case by simp
next
  case (Cons c cs)
  note ih = Cons.IH[of "by_date_add d c"]
  show ?case
  proof (cases "k = date c")
    case True
    show ?thesis
    proof (cases "k \<in> date ` set cs")
      case in_cs: True
      then show ?thesis using True ih by (simp add: by_date_add_lookup)
    next
      case out_cs: False
      then have "filter (\<lambda>c. date c = k) cs = []"
        by (auto simp add: filter_empty_conv)
      then show ?thesis using True out_cs ih by (simp add: by_date_add_lookup)
    qed
  next
    case False
    then have "date c \<noteq> k" by simp
    then show ?thesis using False ih by (simp add: by_date_add_lookup)
  qed
qed

lemma commits_by_date_keys:
  "set (map fst (commits_by_date cs)) = date ` set cs \<and> distinct (map fst (commits_by_date cs))"
  using commits_by_date_fold_keys[of "[]" cs] commits_by_date_fold_distinct[of "[]" cs]
  by (simp add: commits_by_date_def)

lemma commits_by_date_lookup:
  "map_of (commits_by_date cs) k =
     (if k \<in> date ` set cs then Some (filter (\<lambda>c. date c = k) cs) else None)"
  using commits_by_date_fold_lookup[of "[]" cs k] by (simp add: commits_by_date_def)
lemma date_groups_found:
  "git_found e self cs \<Longrightarrow> set ds \<subseteq> date ` set cs \<Longrightarrow>
   date_groups e self (commits_by_date cs) ds =
     Inr (concat (map (\<lambda>d. [ascii ''### '' @ d] @
            map (\<lambda>c. date_commit_line (stats_of e self (hash c)) c)
              (filter (\<lambda>c. date c = d) cs) @ [[]]) ds))"
proof (induction ds)
  case Nil
  show ?case by simp
next
  case (Cons d ds)
  have l: "map_of (commits_by_date cs) d = Some (filter (\<lambda>c. date c = d) cs)"
    using Cons.prems(2) by (simp add: commits_by_date_lookup)
  have "git_found e self (filter (\<lambda>c. date c = d) cs)"
    using Cons.prems(1) by (rule git_found_subset) simp
  then have g: "date_commit_lines e self (filter (\<lambda>c. date c = d) cs) =
      Inr (map (\<lambda>c. date_commit_line (stats_of e self (hash c)) c)
        (filter (\<lambda>c. date c = d) cs))"
    by (rule date_commit_lines_found)
  have ih: "date_groups e self (commits_by_date cs) ds =
     Inr (concat (map (\<lambda>d. [ascii ''### '' @ d] @
            map (\<lambda>c. date_commit_line (stats_of e self (hash c)) c)
              (filter (\<lambda>c. date c = d) cs) @ [[]]) ds))"
    using Cons by simp
  show ?case by (simp add: l g ih)
qed

lemma sorted_reverse_props:
  "set (sorted_reverse ks) = set ks \<and> sorted (rev (sorted_reverse ks)) \<and>
   (distinct ks \<longrightarrow> distinct (sorted_reverse ks) \<and>
      sorted_wrt (\<lambda>a b. b < a) (sorted_reverse ks))"
proof -
  have "distinct ks \<Longrightarrow> sorted_wrt (\<lambda>a b. b < a) (rev (sort ks))"
    by (simp add: sorted_wrt_rev strict_sorted_iff)
  then show ?thesis by (simp add: sorted_reverse_def)
qed

lemma date_section_found:
  assumes "git_found e self cs"
  shows "date_section e self (commits_by_date cs) =
     Inr ([txt_daily_heading, []] @
          concat (map (\<lambda>d. [ascii ''### '' @ d] @
            map (\<lambda>c. date_commit_line (stats_of e self (hash c)) c)
              (filter (\<lambda>c. date c = d) cs) @ [[]])
            (sorted_reverse (map fst (commits_by_date cs)))))"
proof -
  have "set (sorted_reverse (map fst (commits_by_date cs))) \<subseteq> date ` set cs"
    using sorted_reverse_props[of "map fst (commits_by_date cs)"] commits_by_date_keys[of cs]
    by simp
  from date_groups_found[OF assms this] show ?thesis
    by (simp add: date_section_def)
qed

lemma report_commits_frame:
  "length (report_commits e self cs) = length cs \<and>
   map hash (report_commits e self cs) = map hash cs \<and>
   map author (report_commits e self cs) = map author cs \<and>
   map date (report_commits e self cs) = map date cs"
  using enhance_commit_messages_length[of e self cs] enhance_commit_messages_fields[of e self cs]
  by (simp add: report_commits_def)

lemma report_lines_found:
  assumes "git_found e self cs"
  shows "report_lines e self cs =
     Inr (header_lines self (report_commits e self cs) @
          summary_lines e self (report_commits e self cs) @
          stats_lines (length cs)
            (sum_list (map (\<lambda>c. files_changed (stats_of e self (hash c))) cs),
             sum_list (map (\<lambda>c. insertions (stats_of e self (hash c))) cs),
             sum_list (map (\<lambda>c. deletions (stats_of e self (hash c))) cs)) @
          category_section self
            (categorize_commits (str_lower e) (report_commits e self cs)) @
          [txt_daily_heading, []] @
          concat (map (\<lambda>d. [ascii ''### '' @ d] @
            map (\<lambda>c. date_commit_line (stats_of e self (hash c)) c)
              (filter (\<lambda>c. date c = d) (report_commits e self cs)) @ [[]])
            (sorted_reverse (map fst (commits_by_date (report_commits e self cs))))))"
proof -
  let ?cs = "report_commits e self cs"
  have h: "map hash ?cs = map hash cs" and n: "length ?cs = length cs"
    using report_commits_frame[of e self cs] by simp_all
  have g: "git_found e self ?cs"
    using assms git_found_hashes[OF h] by simp
  have s: "sum_list (map (\<lambda>c. f (stats_of e self (hash c))) ?cs) =
      sum_list (map (\<lambda>c. f (stats_of e self (hash c))) cs)" for f :: "commit_stats \<Rightarrow> int"
  proof -
    have "map (\<lambda>c. f (stats_of e self (hash c))) xs = map (\<lambda>h. f (stats_of e self h)) (map hash xs)"
      for xs by simp
    then show ?thesis using h by metis
  qed
  show ?thesis
    unfolding report_lines_def Let_def total_stats_found[OF g] date_section_found[OF g]
    by (simp add: s n)
qed
lemma generate_report_found:
  assumes "cs \<noteq> []" "git_found e self cs"
  shows "generate_report e self cs =
     Inr (join [10]
       (header_lines self (report_commits e self cs) @
        summary_lines e self (report_commits e self cs) @
        stats_lines (length cs)
          (sum_list (map (\<lambda>c. files_changed (stats_of e self (hash c))) cs),
           sum_list (map (\<lambda>c. insertions (stats_of e self (hash c))) cs),
           sum_list (map (\<lambda>c. deletions (stats_of e self (hash c))) cs)) @
        category_section self
          (categorize_commits (str_lower e) (report_commits e self cs)) @
        [txt_daily_heading, []] @
        concat (map (\<lambda>d. [ascii ''### '' @ d] @
          map (\<lambda>c. date_commit_line (stats_of e self (hash c)) c)
            (filter (\<lambda>c. date c = d) (report_commits e self cs)) @ [[]])
          (sorted_reverse (map fst (commits_by_date (report_commits e self cs)))))))"
  using assms(1) by (simp add: generate_report_def report_lines_found[OF assms(2)])

lemma category_commit_lines_plain:
  "\<forall>l\<in>set (category_commit_lines self c). \<not> is_subheading l"
  by (auto simp add: category_commit_lines_def is_subheading_def ascii_def txt_original_def
      split: option.splits)

lemma category_heading_subheading: "is_subheading (category_heading k v)"
  by (simp add: category_heading_def is_subheading_def)

lemma filter_concat_none:
  "\<forall>x\<in>set xs. \<forall>l\<in>set (f x). \<not> P l \<Longrightarrow> filter P (concat (map f xs)) = []"
  by (induction xs) (auto simp add: filter_empty_conv)

lemma category_lines_subheadings:
  "filter is_subheading (category_lines self (k, v)) =
     (if v \<noteq> [] then [category_heading k v] else [])"
proof -
  have "filter is_subheading (concat (map (category_commit_lines self) v)) = []"
    by (rule filter_concat_none) (simp add: category_commit_lines_plain)
  moreover have "\<not> is_subheading []"
    by (simp add: is_subheading_def ascii_def)
  ultimately show ?thesis
    by (simp add: category_lines_def category_heading_subheading)
qed

lemma category_section_subheadings:
  "filter is_subheading (category_section self d) =
     map (\<lambda>(k, v). category_heading k v) (filter (\<lambda>(k, v). v \<noteq> []) d)"
proof -
  have a: "filter is_subheading (concat (map (category_lines self) d)) =
     map (\<lambda>(k, v). category_heading k v) (filter (\<lambda>(k, v). v \<noteq> []) d)"
  proof (induction d)
    case Nil
    show ?case by simp
  next
    case (Cons p d)
    obtain k v where p: "p = (k, v)" by (cases p)
    show ?case unfolding p using Cons.IH
      by (simp add: category_lines_subheadings)
  qed
  have "\<not> is_subheading txt_categories_heading" "\<not> is_subheading []"
    by (simp_all add: is_subheading_def txt_categories_heading_def ascii_def)
  then show ?thesis using a by (simp add: category_section_def)
qed

lemma report_commits_filter:
  "(\<And>c c'. date c = date c' \<Longrightarrow> P c = P c') \<Longrightarrow>
   filter P (report_commits e self cs) = report_commits e self (filter P cs)"
proof -
  assume p: "\<And>c c'. date c = date c' \<Longrightarrow> P c = P c'"
  have "filter P (map (\<lambda>c. c\<lparr>original_message := Some (message c),
          message := g (message c)\<rparr>) cs) =
        map (\<lambda>c. c\<lparr>original_message := Some (message c), message := g (message c)\<rparr>)
          (filter P cs)" for g
  proof (induction cs)
    case Nil
    show ?case by simp
  next
    case (Cons c cs)
    have "P (c\<lparr>original_message := Some (message c), message := g (message c)\<rparr>) = P c"
      by (rule p) simp
    then show ?case using Cons by simp
  qed
  then show ?thesis
    by (simp add: report_commits_def enhance_commit_messages_def split: option.splits)
qed

lemma sorted_reverse_set:
  "distinct ks \<Longrightarrow> sorted_reverse ks = rev (sorted_list_of_set (set ks))"
  by (simp add: sorted_reverse_def sorted_list_of_set_sort_remdups distinct_remdups_id)

section \<open>Claims\<close>

subsection \<open>C1: categorization is total and ordered by priority\<close>

text \<open>
  C1. Categorization is total and follows a fixed priority order. For every case table
  \<open>lower\<close> and every commit sequence: the result has exactly the six keys, in the order
  of the dictionary literal; the bucket of a key is the subsequence of the commits whose
  category is that key, in fetch order, so every commit is in exactly one bucket and the
  bucket sizes add up to the number of commits; the category is the label of the first
  keyword list (feature, bug fix, documentation, refactoring, test) that has a keyword
  inside the lower-cased message, and the catch-all key when none has. A message with
  both a feature keyword and a bug-fix keyword is therefore in the feature bucket.
\<close>

theorem categorize_commits_total_priority:
  "map fst (categorize_commits lower cs) = category_labels \<and>
   length category_labels = 6 \<and> distinct category_labels \<and>
   (\<forall>l. map_of (categorize_commits lower cs) l =
      (if l \<in> set category_labels
       then Some (filter (\<lambda>c. category_of lower c = l) cs) else None)) \<and>
   sum_list (map (\<lambda>(l, v). length v) (categorize_commits lower cs)) = length cs \<and>
   category_of lower c \<in> set category_labels \<and>
   category_of lower c = first_match (lower (message c)) \<and>
   (any_keyword_in feature_keywords (lower (message c)) \<and>
    any_keyword_in bugfix_keywords (lower (message c)) \<longrightarrow>
      category_of lower c = cat_feature) \<and>
   (any_keyword_in feature_keywords (lower (message c)) \<longrightarrow>
      category_of lower c = cat_feature) \<and>
   (\<not> any_keyword_in feature_keywords (lower (message c)) \<and>
    any_keyword_in bugfix_keywords (lower (message c)) \<longrightarrow>
      category_of lower c = cat_bugfix) \<and>
   (\<not> any_keyword_in feature_keywords (lower (message c)) \<and>
    \<not> any_keyword_in bugfix_keywords (lower (message c)) \<and>
    any_keyword_in docs_keywords (lower (message c)) \<longrightarrow>
      category_of lower c = cat_docs) \<and>
   (\<not> any_keyword_in feature_keywords (lower (message c)) \<and>
    \<not> any_keyword_in bugfix_keywords (lower (message c)) \<and>
    \<not> any_keyword_in docs_keywords (lower (message c)) \<and>
    any_keyword_in refactor_keywords (lower (message c)) \<longrightarrow>
      category_of lower c = cat_refactor) \<and>
   (\<not> any_keyword_in feature_keywords (lower (message c)) \<and>
    \<not> any_keyword_in bugfix_keywords (lower (message c)) \<and>
    \<not> any_keyword_in docs_keywords (lower (message c)) \<and>
    \<not> any_keyword_in refactor_keywords (lower (message c)) \<and>
    any_keyword_in test_keywords (lower (message c)) \<longrightarrow>
      category_of lower c = cat_test) \<and>
   (\<not> any_keyword_in feature_keywords (lower (message c)) \<and>
    \<not> any_keyword_in bugfix_keywords (lower (message c)) \<and>
    \<not> any_keyword_in docs_keywords (lower (message c)) \<and>
    \<not> any_keyword_in refactor_keywords (lower (message c)) \<and>
    \<not> any_keyword_in test_keywords (lower (message c)) \<longrightarrow>
      category_of lower c = cat_other)"
proof -
  have six: "length category_labels = 6"
    by (simp add: category_labels_def)
  have look: "\<forall>l. map_of (categorize_commits lower cs) l =
      (if l \<in> set category_labels
       then Some (filter (\<lambda>c. category_of lower c = l) cs) else None)"
    by (simp add: categorize_commits_lookup)
  show ?thesis
    using categorize_commits_keys[of lower cs] six category_labels_distinct look
      categorize_commits_size[of lower cs] category_of_label[of lower c]
      category_of_first_match[of lower c] category_of_chain[of lower c]
    by blast
qed

theorem categorize_commits_total_priority_witness:
  "(let c1 = \<lparr>hash = [], author = [], date = [],
               message = ascii ''Fix login bug, add retry'', original_message = None\<rparr>;
        c2 = c1\<lparr>message := ascii ''Fix login bug''\<rparr>;
        c3 = c1\<lparr>message := ascii ''Update README''\<rparr>;
        c4 = c1\<lparr>message := ascii ''Improve query speed''\<rparr>;
        c5 = c1\<lparr>message := ascii ''More unit cases''\<rparr>;
        c6 = c1\<lparr>message := ascii ''Bump version''\<rparr>
    in any_keyword_in feature_keywords (ascii_lower (message c1)) \<and>
       any_keyword_in bugfix_keywords (ascii_lower (message c1)) \<and>
       category_of ascii_lower c1 = cat_feature \<and>
       \<not> any_keyword_in feature_keywords (ascii_lower (message c2)) \<and>
       any_keyword_in bugfix_keywords (ascii_lower (message c2)) \<and>
       category_of ascii_lower c2 = cat_bugfix \<and>
       \<not> any_keyword_in bugfix_keywords (ascii_lower (message c3)) \<and>
       any_keyword_in docs_keywords (ascii_lower (message c3)) \<and>
       category_of ascii_lower c3 = cat_docs \<and>
       \<not> any_keyword_in docs_keywords (ascii_lower (message c4)) \<and>
       any_keyword_in refactor_keywords (ascii_lower (message c4)) \<and>
       category_of ascii_lower c4 = cat_refactor \<and>
       \<not> any_keyword_in refactor_keywords (ascii_lower (message c5)) \<and>
       any_keyword_in test_keywords (ascii_lower (message c5)) \<and>
       category_of ascii_lower c5 = cat_test \<and>
       \<not> any_keyword_in test_keywords (ascii_lower (message c6)) \<and>
       category_of ascii_lower c6 = cat_other \<and>
       map_of (categorize_commits ascii_lower [c2, c1, c6, c2]) cat_bugfix = Some [c2, c2] \<and>
       sum_list (map (\<lambda>(l, v). length v)
         (categorize_commits ascii_lower [c2, c1, c6, c2])) = 4)"
proof -
  define c1 where "c1 = \<lparr>hash = [], author = [], date = [],
    message = ascii ''Fix login bug, add retry'', original_message = None\<rparr>"
  define c2 where "c2 = c1\<lparr>message := ascii ''Fix login bug''\<rparr>"
  define c3 where "c3 = c1\<lparr>message := ascii ''Update README''\<rparr>"
  define c4 where "c4 = c1\<lparr>message := ascii ''Improve query speed''\<rparr>"
  define c5 where "c5 = c1\<lparr>message := ascii ''More unit cases''\<rparr>"
  define c6 where "c6 = c1\<lparr>message := ascii ''Bump version''\<rparr>"
  have m: "message c1 = ascii ''Fix login bug, add retry''"
    "message c2 = ascii ''Fix login bug''" "message c3 = ascii ''Update README''"
    "message c4 = ascii ''Improve query speed''" "message c5 = ascii ''More unit cases''"
    "message c6 = ascii ''Bump version''"
    by (simp_all add: c1_def c2_def c3_def c4_def c5_def c6_def)
  have h1: "any_keyword_in feature_keywords (ascii_lower (message c1))"
    "any_keyword_in bugfix_keywords (ascii_lower (message c1))"
    unfolding m by (simp_all add: kw_eval)
  have h2: "\<not> any_keyword_in feature_keywords (ascii_lower (message c2))"
    "any_keyword_in bugfix_keywords (ascii_lower (message c2))"
    unfolding m by (simp_all add: kw_eval)
  have h3: "\<not> any_keyword_in feature_keywords (ascii_lower (message c3))"
    "\<not> any_keyword_in bugfix_keywords (ascii_lower (message c3))"
    "any_keyword_in docs_keywords (ascii_lower (message c3))"
    unfolding m by (simp_all add: kw_eval)
  have h4: "\<not> any_keyword_in feature_keywords (ascii_lower (message c4))"
    "\<not> any_keyword_in bugfix_keywords (ascii_lower (message c4))"
    "\<not> any_keyword_in docs_keywords (ascii_lower (message c4))"
    "any_keyword_in refactor_keywords (ascii_lower (message c4))"
    unfolding m by (simp_all add: kw_eval)
  have h5: "\<not> any_keyword_in feature_keywords (ascii_lower (message c5))"
    "\<not> any_keyword_in bugfix_keywords (ascii_lower (message c5))"
    "\<not> any_keyword_in docs_keywords (ascii_lower (message c5))"
    "\<not> any_keyword_in refactor_keywords (ascii_lower (message c5))"
    "any_keyword_in test_keywords (ascii_lower (message c5))"
    unfolding m by (simp_all add: kw_eval)
  have h6: "\<not> any_keyword_in feature_keywords (ascii_lower (message c6))"
    "\<not> any_keyword_in bugfix_keywords (ascii_lower (message c6))"
    "\<not> any_keyword_in docs_keywords (ascii_lower (message c6))"
    "\<not> any_keyword_in refactor_keywords (ascii_lower (message c6))"
    "\<not> any_keyword_in test_keywords (ascii_lower (message c6))"
    unfolding m by (simp_all add: kw_eval)
  have r1: "category_of ascii_lower c1 = cat_feature"
    using categorize_commits_total_priority[of ascii_lower "[]" c1] h1 by blast
  have r2: "category_of ascii_lower c2 = cat_bugfix"
    using categorize_commits_total_priority[of ascii_lower "[]" c2] h2 by blast
  have r3: "category_of ascii_lower c3 = cat_docs"
    using categorize_commits_total_priority[of ascii_lower "[]" c3] h3 by blast
  have r4: "category_of ascii_lower c4 = cat_refactor"
    using categorize_commits_total_priority[of ascii_lower "[]" c4] h4 by blast
  have r5: "category_of ascii_lower c5 = cat_test"
    using categorize_commits_total_priority[of ascii_lower "[]" c5] h5 by blast
  have r6: "category_of ascii_lower c6 = cat_other"
    using categorize_commits_total_priority[of ascii_lower "[]" c6] h6 by blast
  have ne: "cat_bugfix \<noteq> cat_feature" "cat_bugfix \<noteq> cat_other"
    "cat_bugfix \<in> set category_labels"
    by (simp_all add: cat_bugfix_def cat_feature_def cat_other_def ascii_def
        category_labels_def)
  have look: "\<forall>l. map_of (categorize_commits ascii_lower [c2, c1, c6, c2]) l =
      (if l \<in> set category_labels
       then Some (filter (\<lambda>c. category_of ascii_lower c = l) [c2, c1, c6, c2]) else None)"
    using categorize_commits_total_priority[of ascii_lower "[c2, c1, c6, c2]" c1] by blast
  have b: "map_of (categorize_commits ascii_lower [c2, c1, c6, c2]) cat_bugfix =
      Some [c2, c2]"
    using look by (simp add: r1 r2 r6 ne ne(1,2)[symmetric])
  have n: "sum_list (map (\<lambda>(l, v). length v)
      (categorize_commits ascii_lower [c2, c1, c6, c2])) = 4"
    using categorize_commits_total_priority[of ascii_lower "[c2, c1, c6, c2]" c1]
    by simp
  have all: "any_keyword_in feature_keywords (ascii_lower (message c1)) \<and>
       any_keyword_in bugfix_keywords (ascii_lower (message c1)) \<and>
       category_of ascii_lower c1 = cat_feature \<and>
       \<not> any_keyword_in feature_keywords (ascii_lower (message c2)) \<and>
       any_keyword_in bugfix_keywords (ascii_lower (message c2)) \<and>
       category_of ascii_lower c2 = cat_bugfix \<and>
       \<not> any_keyword_in bugfix_keywords (ascii_lower (message c3)) \<and>
       any_keyword_in docs_keywords (ascii_lower (message c3)) \<and>
       category_of ascii_lower c3 = cat_docs \<and>
       \<not> any_keyword_in docs_keywords (ascii_lower (message c4)) \<and>
       any_keyword_in refactor_keywords (ascii_lower (message c4)) \<and>
       category_of ascii_lower c4 = cat_refactor \<and>
       \<not> any_keyword_in refactor_keywords (ascii_lower (message c5)) \<and>
       any_keyword_in test_keywords (ascii_lower (message c5)) \<and>
       category_of ascii_lower c5 = cat_test \<and>
       \<not> any_keyword_in test_keywords (ascii_lower (message c6)) \<and>
       category_of ascii_lower c6 = cat_other \<and>
       map_of (categorize_commits ascii_lower [c2, c1, c6, c2]) cat_bugfix = Some [c2, c2] \<and>
       sum_list (map (\<lambda>(l, v). length v)
         (categorize_commits ascii_lower [c2, c1, c6, c2])) = 4"
    using h1 h2 h3 h4 h5 h6 r1 r2 r3 r4 r5 r6 b n by blast
  show ?thesis
    unfolding Let_def using all
    unfolding c1_def c2_def c3_def c4_def c5_def c6_def .
qed

subsection \<open>C2: one commit for each well-formed line\<close>

text \<open>
  C2. For every output of the log command, the number of parsed commits is the number of
  well-formed lines of the output, a line being well formed when
  \<^verbatim>\<open>line.split('|', 3)\<close> has four parts, that is, when it has at least three
  \<^verbatim>\<open>|\<close>. The same holds for every sequence of lines joined by newlines. The loop treats
  each line on its own: a line that is not well formed adds nothing and leaves the
  commits of the lines before and after it as they are, and a well-formed line adds the
  record of its four parts.
\<close>

theorem get_commits_last_week_well_formed_lines:
  "length (parse_log out) = length (filter well_formed (split 10 out)) \<and>
   (subprocess_run e (log_cmd self since_date) = Completed out \<longrightarrow>
      get_commits_last_week e self since_date = parse_log out \<and>
      length (get_commits_last_week e self since_date) =
        length (filter well_formed (split 10 out))) \<and>
   ((\<forall>l\<in>set ls. 10 \<notin> set l) \<longrightarrow>
      length (parse_log (join [10] ls)) = length (filter well_formed ls)) \<and>
   (well_formed line \<longleftrightarrow> length (split_max 124 3 line) = 4) \<and>
   (well_formed line \<longleftrightarrow> 3 \<le> count_list line 124) \<and>
   parse_log out = parse_lines (split 10 (strip out)) \<and>
   parse_lines (xs @ ys) = parse_lines xs @ parse_lines ys \<and>
   (\<not> well_formed line \<longrightarrow> parse_lines (xs @ line # ys) = parse_lines (xs @ ys)) \<and>
   (well_formed line \<longrightarrow>
      parse_lines (xs @ line # ys) =
        parse_lines xs @
        \<lparr>hash = split_max 124 3 line ! 0, author = split_max 124 3 line ! 1,
         date = split_max 124 3 line ! 2, message = split_max 124 3 line ! 3,
         original_message = None\<rparr> # parse_lines ys)"
proof -
  have g: "subprocess_run e (log_cmd self since_date) = Completed out \<longrightarrow>
      get_commits_last_week e self since_date = parse_log out \<and>
      length (get_commits_last_week e self since_date) =
        length (filter well_formed (split 10 out))"
    by (simp add: get_commits_last_week_def parse_log_length)
  have j: "(\<forall>l\<in>set ls. 10 \<notin> set l) \<longrightarrow>
      length (parse_log (join [10] ls)) = length (filter well_formed ls)"
    using parse_log_join_length by blast
  have n: "\<not> well_formed line \<longrightarrow> parse_lines (xs @ line # ys) = parse_lines (xs @ ys)"
    by (simp add: parse_lines_append parse_lines_Cons parse_line_well_formed)
  have w: "well_formed line \<longrightarrow>
      parse_lines (xs @ line # ys) =
        parse_lines xs @
        \<lparr>hash = split_max 124 3 line ! 0, author = split_max 124 3 line ! 1,
         date = split_max 124 3 line ! 2, message = split_max 124 3 line ! 3,
         original_message = None\<rparr> # parse_lines ys"
    by (simp add: parse_lines_append parse_lines_Cons parse_line_well_formed)
  show ?thesis
    using parse_log_length[of out] g j n w well_formed_count[of line]
      parse_lines_append[of xs ys]
    by (simp add: well_formed_def parse_log_def)
qed

theorem get_commits_last_week_well_formed_lines_witness:
  "(let l1 = ascii ''a1|Alice|2024-01-10|fix login bug'';
        l2 = ascii ''merge noise'';
        l3 = ascii ''b2|Bob|2024-01-10|add new dashboard'';
        out = l1 @ [10] @ l2 @ [10] @ l3;
        e = sample_env (Completed out) RequestRaises
    in subprocess_run e (log_cmd sample_plain (ascii ''2024-01-05'')) = Completed out \<and>
       10 \<notin> set l1 \<and> 10 \<notin> set l2 \<and> 10 \<notin> set l3 \<and>
       well_formed l1 \<and> \<not> well_formed l2 \<and> well_formed l3 \<and>
       join [10] [l1, l2, l3] = out \<and>
       length (parse_log out) = 2 \<and>
       length (get_commits_last_week e sample_plain (ascii ''2024-01-05'')) = 2 \<and>
       parse_lines ([l1] @ l2 # [l3]) = parse_lines ([l1] @ [l3]) \<and>
       parse_lines ([] @ l1 # [l3]) = parse_lines [] @ sample_alice # parse_lines [l3])"
proof -
  define l1 where "l1 = ascii ''a1|Alice|2024-01-10|fix login bug''"
  define l2 where "l2 = ascii ''merge noise''"
  define l3 where "l3 = ascii ''b2|Bob|2024-01-10|add new dashboard''"
  define out where "out = l1 @ [10] @ l2 @ [10] @ l3"
  define e where "e = sample_env (Completed out) RequestRaises"
  define since where "since = ascii ''2024-01-05''"
  note inst = get_commits_last_week_well_formed_lines[where out = out and e = e
      and self = sample_plain and since_date = since and ls = "[l1, l2, l3]"]
  have r: "subprocess_run e (log_cmd sample_plain since) = Completed out"
    by (simp add: e_def sample_env_def)
  have nl: "\<forall>l\<in>set [l1, l2, l3]. 10 \<notin> set l"
    by (simp add: l1_def l2_def l3_def ascii_def)
  have cnt: "3 \<le> count_list l1 124" "\<not> 3 \<le> count_list l2 124" "3 \<le> count_list l3 124"
    by (simp_all add: l1_def l2_def l3_def ascii_def)
  have wf1: "well_formed l1"
    using inst[where line = l1 and xs = "[]" and ys = "[]"] cnt(1) by blast
  have wf2: "\<not> well_formed l2"
    using inst[where line = l2 and xs = "[]" and ys = "[]"] cnt(2) by blast
  have wf3: "well_formed l3"
    using inst[where line = l3 and xs = "[]" and ys = "[]"] cnt(3) by blast
  have j: "join [10] [l1, l2, l3] = out"
    by (simp add: out_def)
  have f: "length (filter well_formed [l1, l2, l3]) = 2"
    using wf1 wf2 wf3 by simp
  have "length (parse_log (join [10] [l1, l2, l3])) = length (filter well_formed [l1, l2, l3])"
    using inst[where line = l1 and xs = "[]" and ys = "[]"] nl by blast
  then have n: "length (parse_log out) = 2"
    unfolding j f .
  have "length (get_commits_last_week e sample_plain since) =
      length (filter well_formed (split 10 out))"
    using inst[where line = l1 and xs = "[]" and ys = "[]"] r by blast
  moreover have "length (parse_log out) = length (filter well_formed (split 10 out))"
    using inst[where line = l1 and xs = "[]" and ys = "[]"] by blast
  ultimately have g: "length (get_commits_last_week e sample_plain since) = 2"
    using n by simp
  have s: "parse_lines ([l1] @ l2 # [l3]) = parse_lines ([l1] @ [l3])"
    using inst[where line = l2 and xs = "[l1]" and ys = "[l3]"] wf2 by blast
  have a: "\<lparr>hash = split_max 124 3 l1 ! 0, author = split_max 124 3 l1 ! 1,
         date = split_max 124 3 l1 ! 2, message = split_max 124 3 l1 ! 3,
         original_message = None\<rparr> = sample_alice"
    by (simp add: l1_def sample_alice_def ascii_def numeral_3_eq_3)
  have "parse_lines ([] @ l1 # [l3]) =
        parse_lines [] @
        \<lparr>hash = split_max 124 3 l1 ! 0, author = split_max 124 3 l1 ! 1,
         date = split_max 124 3 l1 ! 2, message = split_max 124 3 l1 ! 3,
         original_message = None\<rparr> # parse_lines [l3]"
    using inst[where line = l1 and xs = "[]" and ys = "[l3]"] wf1 by blast
  then have t: "parse_lines ([] @ l1 # [l3]) = parse_lines [] @ sample_alice # parse_lines [l3]"
    unfolding a .
  have all: "subprocess_run e (log_cmd sample_plain since) = Completed out \<and>
       10 \<notin> set l1 \<and> 10 \<notin> set l2 \<and> 10 \<notin> set l3 \<and>
       well_formed l1 \<and> \<not> well_formed l2 \<and> well_formed l3 \<and>
       join [10] [l1, l2, l3] = out \<and>
       length (parse_log out) = 2 \<and>
       length (get_commits_last_week e sample_plain since) = 2 \<and>
       parse_lines ([l1] @ l2 # [l3]) = parse_lines ([l1] @ [l3]) \<and>
       parse_lines ([] @ l1 # [l3]) = parse_lines [] @ sample_alice # parse_lines [l3]"
    using r nl wf1 wf2 wf3 j n g s t by simp
  show ?thesis
    unfolding Let_def using all
    unfolding l1_def l2_def l3_def out_def e_def since_def .
qed

subsection \<open>C3: stat parsing defaults to zero\<close>

text \<open>
  C3 says that the stats are all zero when the tool fails. That holds when the tool runs
  and exits with a non-zero status, and the parsing part of C3 holds for every output
  (lemma \<open>get_commit_stats_defaults\<close>). It does not hold when the \<^verbatim>\<open>git\<close> executable is
  missing: \<^verbatim>\<open>subprocess.run\<close> then raises \<^verbatim>\<open>FileNotFoundError\<close>, which line 218 does not
  catch, so \<^verbatim>\<open>get_commit_stats\<close> raises instead of returning zeros, and so does
  \<^verbatim>\<open>generate_report\<close> for every non-empty commit sequence. The sibling
  \<^verbatim>\<open>get_commits_last_week\<close> catches the same exception (line 153) and returns the
  empty list.
\<close>

theorem get_commit_stats_missing_git:
  "(subprocess_run e (show_cmd self h) = FileNotFoundError \<longrightarrow>
      get_commit_stats e self h = Inl FileNotFoundError_raised \<and>
      get_commit_stats e self h \<noteq> Inr zero_stats) \<and>
   (subprocess_run e (log_cmd self since_date) = FileNotFoundError \<longrightarrow>
      get_commits_last_week e self since_date = []) \<and>
   (cs \<noteq> [] \<and> subprocess_run e (show_cmd self (hash (hd cs))) = FileNotFoundError \<longrightarrow>
      generate_report e self cs = Inl FileNotFoundError_raised)"
proof -
  have a: "subprocess_run e (show_cmd self h) = FileNotFoundError \<longrightarrow>
      get_commit_stats e self h = Inl FileNotFoundError_raised \<and>
      get_commit_stats e self h \<noteq> Inr zero_stats"
    by (simp add: get_commit_stats_def)
  have b: "subprocess_run e (log_cmd self since_date) = FileNotFoundError \<longrightarrow>
      get_commits_last_week e self since_date = []"
    by (simp add: get_commits_last_week_def)
  have c: "cs \<noteq> [] \<and> subprocess_run e (show_cmd self (hash (hd cs))) = FileNotFoundError \<longrightarrow>
      generate_report e self cs = Inl FileNotFoundError_raised"
  proof
    assume h: "cs \<noteq> [] \<and> subprocess_run e (show_cmd self (hash (hd cs))) = FileNotFoundError"
    then obtain c cs' where cs: "cs = c # cs'" by (cases cs) auto
    have "map hash (report_commits e self cs) = map hash cs"
      using report_commits_frame[of e self cs] by simp
    then obtain d ds where d: "report_commits e self cs = d # ds" "hash d = hash c"
      unfolding cs by (cases "report_commits e self (c # cs')") auto
    have "get_commit_stats e self (hash d) = Inl FileNotFoundError_raised"
      using h cs d(2) by (simp add: get_commit_stats_def)
    then have "total_stats e self (report_commits e self cs) (0, 0, 0) =
        Inl FileNotFoundError_raised"
      unfolding d(1) by (rule total_stats_first_missing)
    then have "report_lines e self cs = Inl FileNotFoundError_raised"
      by (simp add: report_lines_def Let_def)
    then show "generate_report e self cs = Inl FileNotFoundError_raised"
      using h by (simp add: generate_report_def)
  qed
  show ?thesis using a b c by blast
qed

theorem get_commit_stats_missing_git_witness:
  "subprocess_run (sample_env FileNotFoundError RequestRaises)
     (show_cmd sample_plain (ascii ''a1'')) = FileNotFoundError \<and>
   get_commit_stats (sample_env FileNotFoundError RequestRaises) sample_plain (ascii ''a1'') =
     Inl FileNotFoundError_raised \<and>
   get_commit_stats (sample_env FileNotFoundError RequestRaises) sample_plain (ascii ''a1'') \<noteq>
     Inr \<lparr>files_changed = 0, insertions = 0, deletions = 0\<rparr> \<and>
   subprocess_run (sample_env FileNotFoundError RequestRaises)
     (log_cmd sample_plain (ascii ''2024-01-05'')) = FileNotFoundError \<and>
   get_commits_last_week (sample_env FileNotFoundError RequestRaises) sample_plain
     (ascii ''2024-01-05'') = [] \<and>
   [sample_alice, sample_bob] \<noteq> [] \<and>
   generate_report (sample_env FileNotFoundError RequestRaises) sample_plain
     [sample_alice, sample_bob] = Inl FileNotFoundError_raised"
proof -
  define e where "e = sample_env FileNotFoundError RequestRaises"
  note inst = get_commit_stats_missing_git[where e = e and self = sample_plain
      and h = "ascii ''a1''" and since_date = "ascii ''2024-01-05''"
      and cs = "[sample_alice, sample_bob]"]
  have r: "subprocess_run e cmd = FileNotFoundError" for cmd
    by (simp add: e_def sample_env_def)
  have ne: "[sample_alice, sample_bob] \<noteq> []" by simp
  have g: "get_commit_stats e sample_plain (ascii ''a1'') = Inl FileNotFoundError_raised"
    using inst r by blast
  have z: "get_commit_stats e sample_plain (ascii ''a1'') \<noteq>
      Inr \<lparr>files_changed = 0, insertions = 0, deletions = 0\<rparr>"
    using g by simp
  have l: "get_commits_last_week e sample_plain (ascii ''2024-01-05'') = []"
    using inst r by blast
  have p: "generate_report e sample_plain [sample_alice, sample_bob] =
      Inl FileNotFoundError_raised"
    using inst r ne by blast
  show ?thesis
    using r g z l ne p unfolding e_def by blast
qed

subsection \<open>C4: passthrough and graceful degradation\<close>

text \<open>
  C4. Without a credential (\<^verbatim>\<open>api_key\<close> is \<^verbatim>\<open>None\<close> or empty, in particular when
  neither the argument nor the environment variable gives one)
  \<^verbatim>\<open>enhance_commit_message\<close> returns its argument and \<^verbatim>\<open>generate_summary\<close> returns the
  empty text. When the call raises, answers with a status other than 200, or answers with
  a body that cannot be read, the first returns the original message and the second the
  empty text. Both functions always return a string: the original message (the empty
  text) or the stripped content of a 200 answer, never an exception.
\<close>

theorem enhancer_passthrough_and_degradation:
  "(\<not> truthy (api_key l) \<longrightarrow>
      enhance_commit_message e l m = m \<and> generate_summary e l cs = []) \<and>
   (\<not> truthy key \<and> \<not> truthy getenv \<longrightarrow>
      enhance_commit_message e (LLMEnhancer key mdl getenv) m = m \<and>
      generate_summary e (LLMEnhancer key mdl getenv) cs = []) \<and>
   (requests_post e (enhance_request l m) = RequestRaises \<or>
    (\<exists>st b. requests_post e (enhance_request l m) = Response st b \<and>
       (st \<noteq> 200 \<or> (\<exists>ex. response_content b = Inl ex))) \<longrightarrow>
      enhance_commit_message e l m = m) \<and>
   (requests_post e (summary_request l cs) = RequestRaises \<or>
    (\<exists>st b. requests_post e (summary_request l cs) = Response st b \<and>
       (st \<noteq> 200 \<or> (\<exists>ex. response_content b = Inl ex))) \<longrightarrow>
      generate_summary e l cs = []) \<and>
   (enhance_commit_message e l m = m \<or>
    (\<exists>b s. truthy (api_key l) \<and> requests_post e (enhance_request l m) = Response 200 b \<and>
       response_content b = Inr s \<and> enhance_commit_message e l m = s)) \<and>
   (generate_summary e l cs = [] \<or>
    (\<exists>b s. truthy (api_key l) \<and> cs \<noteq> [] \<and>
       requests_post e (summary_request l cs) = Response 200 b \<and>
       response_content b = Inr s \<and> generate_summary e l cs = s))"
proof -
  have k: "\<not> truthy key \<and> \<not> truthy getenv \<longrightarrow>
      enhance_commit_message e (LLMEnhancer key mdl getenv) m = m \<and>
      generate_summary e (LLMEnhancer key mdl getenv) cs = []"
    using LLMEnhancer_no_key[of key getenv mdl] enhancer_no_key by blast
  show ?thesis
    using enhancer_no_key[of l e m cs] k enhance_commit_message_failure[of e l m]
      generate_summary_failure[of e l cs] enhance_commit_message_cases[of e l m]
      generate_summary_cases[of e l cs]
    by blast
qed

theorem enhancer_passthrough_and_degradation_witness:
  "\<not> truthy None \<and> \<not> truthy (Some []) \<and>
   enhance_commit_message (sample_env CalledProcessError (Response 200 (Some sample_answer)))
     (LLMEnhancer None default_model (Some [])) (ascii ''fix login bug'') =
     ascii ''fix login bug'' \<and>
   generate_summary (sample_env CalledProcessError (Response 200 (Some sample_answer)))
     (LLMEnhancer None default_model (Some [])) [sample_alice] = [] \<and>
   enhance_commit_message (sample_env CalledProcessError RequestRaises)
     (LLMEnhancer (Some (ascii ''sk-1'')) default_model None) (ascii ''fix login bug'') =
     ascii ''fix login bug'' \<and>
   generate_summary (sample_env CalledProcessError RequestRaises)
     (LLMEnhancer (Some (ascii ''sk-1'')) default_model None) [sample_alice] = [] \<and>
   enhance_commit_message (sample_env CalledProcessError (Response 500 None))
     (LLMEnhancer (Some (ascii ''sk-1'')) default_model None) (ascii ''fix login bug'') =
     ascii ''fix login bug'' \<and>
   generate_summary (sample_env CalledProcessError (Response 500 None))
     (LLMEnhancer (Some (ascii ''sk-1'')) default_model None) [sample_alice] = [] \<and>
   response_content (Some (JArr [])) = Inl TypeError \<and>
   enhance_commit_message (sample_env CalledProcessError (Response 200 (Some (JArr []))))
     (LLMEnhancer (Some (ascii ''sk-1'')) default_model None) (ascii ''fix login bug'') =
     ascii ''fix login bug'' \<and>
   generate_summary (sample_env CalledProcessError (Response 200 (Some (JArr []))))
     (LLMEnhancer (Some (ascii ''sk-1'')) default_model None) [sample_alice] = []"
proof -
  let ?l = "LLMEnhancer (Some (ascii ''sk-1'')) default_model None"
  let ?m = "ascii ''fix login bug''"
  let ?ok = "sample_env CalledProcessError (Response 200 (Some sample_answer))"
  let ?raise = "sample_env CalledProcessError RequestRaises"
  let ?e500 = "sample_env CalledProcessError (Response 500 None)"
  let ?bad = "sample_env CalledProcessError (Response 200 (Some (JArr [])))"
  have t: "\<not> truthy None" "\<not> truthy (Some [])"
    by (simp_all add: truthy_def)
  have r: "requests_post ?raise (enhance_request ?l ?m) = RequestRaises"
    "requests_post ?raise (summary_request ?l [sample_alice]) = RequestRaises"
    by (simp_all add: sample_env_def)
  have s: "requests_post ?e500 (enhance_request ?l ?m) = Response 500 None"
    "requests_post ?e500 (summary_request ?l [sample_alice]) = Response 500 None"
    "(500::int) \<noteq> 200"
    by (simp_all add: sample_env_def)
  have b: "requests_post ?bad (enhance_request ?l ?m) = Response 200 (Some (JArr []))"
    "requests_post ?bad (summary_request ?l [sample_alice]) = Response 200 (Some (JArr []))"
    "response_content (Some (JArr [])) = Inl TypeError"
    by (simp_all add: sample_env_def response_content_def getitem_def)
  have 1: "enhance_commit_message ?ok (LLMEnhancer None default_model (Some [])) ?m = ?m \<and>
      generate_summary ?ok (LLMEnhancer None default_model (Some [])) [sample_alice] = []"
    using enhancer_passthrough_and_degradation[of _ ?ok ?m "[sample_alice]" None "Some []"
        default_model] t
    by blast
  have 2: "enhance_commit_message ?raise ?l ?m = ?m \<and>
      generate_summary ?raise ?l [sample_alice] = []"
    using enhancer_passthrough_and_degradation[of ?l ?raise ?m "[sample_alice]"] r
    by blast
  have 3: "enhance_commit_message ?e500 ?l ?m = ?m \<and>
      generate_summary ?e500 ?l [sample_alice] = []"
    using enhancer_passthrough_and_degradation[of ?l ?e500 ?m "[sample_alice]"] s
    by blast
  have 4: "enhance_commit_message ?bad ?l ?m = ?m \<and>
      generate_summary ?bad ?l [sample_alice] = []"
    using enhancer_passthrough_and_degradation[of ?l ?bad ?m "[sample_alice]"] b
    by blast
  show ?thesis
    using t 1 2 3 4 b(3) by blast
qed

subsection \<open>C5: the report for no commits\<close>

text \<open>
  C5. For the empty commit sequence \<^verbatim>\<open>generate_report\<close> returns the title line followed
  by the fixed sentence, whatever the world is: no process is started and no API call is
  made. The title carries the author when the author filter is a non-empty name. Every
  section heading and sub-heading of the full report contains the marker \<^verbatim>\<open>## \<close>, and
  the document of the empty case does not contain it (for an author name without
  \<^verbatim>\<open>#\<close>), so it has no summary, statistics, category or per-date section.
\<close>

theorem generate_report_no_commits:
  "generate_report e self [] = Inr (title_line self @ txt_no_commits) \<and>
   (self_author self = Some a \<and> a \<noteq> [] \<longrightarrow>
      generate_report e self [] = Inr (txt_title @ ascii '' - '' @ a @ txt_no_commits) \<and>
      sublist a (txt_title @ ascii '' - '' @ a @ txt_no_commits)) \<and>
   (\<not> truthy (self_author self) \<longrightarrow>
      generate_report e self [] = Inr (txt_title @ txt_no_commits)) \<and>
   ((\<forall>n. self_author self = Some n \<longrightarrow> 35 \<notin> set n) \<longrightarrow>
      \<not> sublist (ascii ''## '') (title_line self @ txt_no_commits)) \<and>
   prefix (ascii ''## '') txt_summary_heading \<and> prefix (ascii ''## '') txt_stats_heading \<and>
   prefix (ascii ''## '') txt_categories_heading \<and> prefix (ascii ''## '') txt_daily_heading \<and>
   sublist (ascii ''## '') (category_heading k v) \<and> sublist (ascii ''## '') (ascii ''### '' @ d)"
proof -
  have g: "generate_report e self [] = Inr (title_line self @ txt_no_commits)"
    by (simp add: generate_report_def)
  have s: "sublist a (txt_title @ ascii '' - '' @ a @ txt_no_commits)"
    unfolding sublist_def by (metis append.assoc)
  show ?thesis
    using g s title_line_cases[of self a] empty_report_no_heading[of self]
      section_headings_marked[of k v d]
    by (simp del: append_assoc)
qed

theorem generate_report_no_commits_witness:
  "self_author (GitWeeklyReport (ascii ''.'') False None (Some (ascii ''Alice'')) None) =
     Some (ascii ''Alice'') \<and> ascii ''Alice'' \<noteq> [] \<and>
   35 \<notin> set (ascii ''Alice'') \<and>
   generate_report (sample_env FileNotFoundError RequestRaises)
     (GitWeeklyReport (ascii ''.'') False None (Some (ascii ''Alice'')) None) [] =
     Inr (txt_title @ ascii '' - '' @ ascii ''Alice'' @ txt_no_commits) \<and>
   \<not> sublist (ascii ''## '')
     (title_line (GitWeeklyReport (ascii ''.'') False None (Some (ascii ''Alice'')) None) @
      txt_no_commits) \<and>
   \<not> truthy (self_author sample_plain) \<and>
   generate_report (sample_env FileNotFoundError RequestRaises) sample_plain [] =
     Inr (txt_title @ txt_no_commits)"
proof -
  let ?s = "GitWeeklyReport (ascii ''.'') False None (Some (ascii ''Alice'')) None"
  let ?e = "sample_env FileNotFoundError RequestRaises"
  have a: "self_author ?s = Some (ascii ''Alice'')" "ascii ''Alice'' \<noteq> []"
    "\<forall>n. self_author ?s = Some n \<longrightarrow> 35 \<notin> set n"
    by (simp_all add: GitWeeklyReport_def ascii_def)
  have h: "35 \<notin> set (ascii ''Alice'')"
    by (simp add: ascii_def)
  have p: "\<not> truthy (self_author sample_plain)"
    by (simp add: sample_plain_def GitWeeklyReport_def truthy_def)
  have 1: "generate_report ?e ?s [] =
      Inr (txt_title @ ascii '' - '' @ ascii ''Alice'' @ txt_no_commits)"
    using generate_report_no_commits[of ?e ?s "ascii ''Alice''"] a(1,2) by blast
  have 2: "\<not> sublist (ascii ''## '') (title_line ?s @ txt_no_commits)"
    using generate_report_no_commits[of ?e ?s "ascii ''Alice''"] a(3) by blast
  have 3: "generate_report ?e sample_plain [] = Inr (txt_title @ txt_no_commits)"
    using generate_report_no_commits[of ?e sample_plain] p by blast
  show ?thesis using a(1,2) h p 1 2 3 by blast
qed

subsection \<open>C6: dates in descending order, commits in fetch order\<close>

text \<open>
  C6. When the \<^verbatim>\<open>git\<close> executable is found, the per-date section of the report is its
  heading followed, for each date of the list \<^verbatim>\<open>sorted(commits_by_date.keys(),
  reverse=True)\<close>, by the sub-heading of the date, one line for each commit of that date
  and an empty line. That list holds exactly the dates of the input commits, each once,
  in strictly descending order; it is the descending enumeration of the set of dates, so
  it does not depend on the order in which the commits arrive. The commits under a date
  are the commits of the sequence with that date in the order of the sequence (enhanced
  when enhancement is on, which keeps hash, author and date).
\<close>

theorem date_section_sorted_descending:
  assumes "git_found e self cs"
  shows "set (sorted_reverse (map fst (commits_by_date (report_commits e self cs)))) =
       date ` set cs \<and>
     distinct (sorted_reverse (map fst (commits_by_date (report_commits e self cs)))) \<and>
     sorted_wrt (\<lambda>a b. b < a)
       (sorted_reverse (map fst (commits_by_date (report_commits e self cs)))) \<and>
     sorted_reverse (map fst (commits_by_date (report_commits e self cs))) =
       rev (sorted_list_of_set (date ` set cs)) \<and>
     map date (report_commits e self cs) = map date cs \<and>
     map hash (report_commits e self cs) = map hash cs \<and>
     map author (report_commits e self cs) = map author cs \<and>
     filter (\<lambda>c. date c = d) (report_commits e self cs) =
       report_commits e self (filter (\<lambda>c. date c = d) cs) \<and>
     date_section e self (commits_by_date (report_commits e self cs)) =
       Inr ([txt_daily_heading, []] @
            concat (map (\<lambda>d. [ascii ''### '' @ d] @
              map (\<lambda>c. date_commit_line (stats_of e self (hash c)) c)
                (filter (\<lambda>c. date c = d) (report_commits e self cs)) @ [[]])
              (sorted_reverse (map fst (commits_by_date (report_commits e self cs)))))) \<and>
     (cs \<noteq> [] \<longrightarrow>
        (\<exists>before.
           generate_report e self cs =
             Inr (join [10]
               (before @ [txt_daily_heading, []] @
                concat (map (\<lambda>d. [ascii ''### '' @ d] @
                  map (\<lambda>c. date_commit_line (stats_of e self (hash c)) c)
                    (filter (\<lambda>c. date c = d) (report_commits e self cs)) @ [[]])
                  (sorted_reverse
                    (map fst (commits_by_date (report_commits e self cs))))))))) "
proof -
  let ?cs = "report_commits e self cs"
  let ?ks = "map fst (commits_by_date ?cs)"
  have fr: "map date ?cs = map date cs" "map hash ?cs = map hash cs"
    "map author ?cs = map author cs"
    using report_commits_frame[of e self cs] by simp_all
  have ds: "date ` set ?cs = date ` set cs"
    using fr(1) by (metis set_map)
  have k: "set ?ks = date ` set cs" "distinct ?ks"
    using commits_by_date_keys[of ?cs] ds by simp_all
  have s: "set (sorted_reverse ?ks) = date ` set cs" "distinct (sorted_reverse ?ks)"
    "sorted_wrt (\<lambda>a b. b < a) (sorted_reverse ?ks)"
    using sorted_reverse_props[of ?ks] k by simp_all
  have u: "sorted_reverse ?ks = rev (sorted_list_of_set (date ` set cs))"
    using sorted_reverse_set[OF k(2)] k(1) by simp
  have f: "filter (\<lambda>c. date c = d) ?cs = report_commits e self (filter (\<lambda>c. date c = d) cs)"
    by (rule report_commits_filter) simp
  have g: "git_found e self ?cs"
    using assms git_found_hashes[OF fr(2)] by simp
  note sec = date_section_found[OF g]
  have r: "cs \<noteq> [] \<longrightarrow>
        (\<exists>before.
           generate_report e self cs =
             Inr (join [10]
               (before @ [txt_daily_heading, []] @
                concat (map (\<lambda>d. [ascii ''### '' @ d] @
                  map (\<lambda>c. date_commit_line (stats_of e self (hash c)) c)
                    (filter (\<lambda>c. date c = d) (report_commits e self cs)) @ [[]])
                  (sorted_reverse
                    (map fst (commits_by_date (report_commits e self cs))))))))"
  proof
    assume ne: "cs \<noteq> []"
    have "generate_report e self cs =
     Inr (join [10]
       ((header_lines self (report_commits e self cs) @
        summary_lines e self (report_commits e self cs) @
        stats_lines (length cs)
          (sum_list (map (\<lambda>c. files_changed (stats_of e self (hash c))) cs),
           sum_list (map (\<lambda>c. insertions (stats_of e self (hash c))) cs),
           sum_list (map (\<lambda>c. deletions (stats_of e self (hash c))) cs)) @
        category_section self
          (categorize_commits (str_lower e) (report_commits e self cs))) @
        [txt_daily_heading, []] @
        concat (map (\<lambda>d. [ascii ''### '' @ d] @
          map (\<lambda>c. date_commit_line (stats_of e self (hash c)) c)
            (filter (\<lambda>c. date c = d) (report_commits e self cs)) @ [[]])
          (sorted_reverse (map fst (commits_by_date (report_commits e self cs)))))))"
      using generate_report_found[OF ne assms] by simp
    then show "\<exists>before.
           generate_report e self cs =
             Inr (join [10]
               (before @ [txt_daily_heading, []] @
                concat (map (\<lambda>d. [ascii ''### '' @ d] @
                  map (\<lambda>c. date_commit_line (stats_of e self (hash c)) c)
                    (filter (\<lambda>c. date c = d) (report_commits e self cs)) @ [[]])
                  (sorted_reverse
                    (map fst (commits_by_date (report_commits e self cs)))))))"
      by blast
  qed
  show ?thesis
    using s u fr f sec r by blast
qed

theorem date_section_sorted_descending_witness:
  "(let c1 = sample_alice;
        c2 = sample_bob\<lparr>date := ascii ''2024-01-12''\<rparr>;
        c3 = sample_bob;
        c4 = sample_alice\<lparr>date := ascii ''2024-01-11''\<rparr>;
        cs = [c1, c2, c3, c4];
        e = sample_env (Completed []) RequestRaises;
        z = \<lparr>files_changed = 0, insertions = 0, deletions = 0\<rparr>
    in git_found e sample_plain cs \<and>
       map date cs =
         [ascii ''2024-01-10'', ascii ''2024-01-12'', ascii ''2024-01-10'', ascii ''2024-01-11''] \<and>
       sorted_reverse (map fst (commits_by_date (report_commits e sample_plain cs))) =
         [ascii ''2024-01-12'', ascii ''2024-01-11'', ascii ''2024-01-10''] \<and>
       filter (\<lambda>c. date c = ascii ''2024-01-10'') (report_commits e sample_plain cs) =
         [c1, c3] \<and>
       date_section e sample_plain (commits_by_date (report_commits e sample_plain cs)) =
         Inr [txt_daily_heading, [],
              ascii ''### 2024-01-12'', date_commit_line z c2, [],
              ascii ''### 2024-01-11'', date_commit_line z c4, [],
              ascii ''### 2024-01-10'', date_commit_line z c1, date_commit_line z c3, []])"
proof -
  define c1 where "c1 = sample_alice"
  define c2 where "c2 = sample_bob\<lparr>date := ascii ''2024-01-12''\<rparr>"
  define c3 where "c3 = sample_bob"
  define c4 where "c4 = sample_alice\<lparr>date := ascii ''2024-01-11''\<rparr>"
  define cs where "cs = [c1, c2, c3, c4]"
  define e where "e = sample_env (Completed []) RequestRaises"
  define z where "z = \<lparr>files_changed = 0, insertions = 0, deletions = 0\<rparr>"
  have dt: "date c1 = ascii ''2024-01-10''" "date c2 = ascii ''2024-01-12''"
    "date c3 = ascii ''2024-01-10''" "date c4 = ascii ''2024-01-11''"
    by (simp_all add: c1_def c2_def c3_def c4_def sample_alice_def sample_bob_def)
  have ne: "ascii ''2024-01-10'' \<noteq> ascii ''2024-01-12''"
    "ascii ''2024-01-10'' \<noteq> ascii ''2024-01-11''"
    "ascii ''2024-01-12'' \<noteq> ascii ''2024-01-11''"
    "ascii ''2024-01-12'' \<noteq> ascii ''2024-01-10''"
    "ascii ''2024-01-11'' \<noteq> ascii ''2024-01-10''"
    "ascii ''2024-01-11'' \<noteq> ascii ''2024-01-12''"
    by (simp_all add: ascii_def)
  have gf: "git_found e sample_plain cs"
    by (simp add: git_found_def e_def sample_env_def cs_def)
  have md: "map date cs =
      [ascii ''2024-01-10'', ascii ''2024-01-12'', ascii ''2024-01-10'', ascii ''2024-01-11'']"
    by (simp add: cs_def dt)
  have u: "\<not> use_llm sample_plain"
    by (simp add: sample_plain_def GitWeeklyReport_def)
  have rc: "report_commits e sample_plain cs = cs"
    using u by (simp add: report_commits_def)
  have ks: "map fst (commits_by_date cs) =
      [ascii ''2024-01-10'', ascii ''2024-01-12'', ascii ''2024-01-11'']"
    using ne by (simp add: commits_by_date_def cs_def by_date_add_keys dt)
  have so: "sorted_reverse [ascii ''2024-01-10'', ascii ''2024-01-12'', ascii ''2024-01-11''] =
      [ascii ''2024-01-12'', ascii ''2024-01-11'', ascii ''2024-01-10'']"
    by (simp add: sorted_reverse_def ascii_def)
  have sr: "sorted_reverse (map fst (commits_by_date (report_commits e sample_plain cs))) =
      [ascii ''2024-01-12'', ascii ''2024-01-11'', ascii ''2024-01-10'']"
    unfolding rc ks so ..
  have fl: "filter (\<lambda>c. date c = ascii ''2024-01-10'') cs = [c1, c3]"
    "filter (\<lambda>c. date c = ascii ''2024-01-11'') cs = [c4]"
    "filter (\<lambda>c. date c = ascii ''2024-01-12'') cs = [c2]"
    using ne by (simp_all add: cs_def dt)
  have st: "stats_of e sample_plain h = z" for h
    by (simp add: stats_of_def e_def sample_env_def parse_stats_def strip_def zero_stats_def
        update_stats_def ascii_def sublist_code z_def)
  note inst = date_section_sorted_descending[OF gf, where d = "ascii ''2024-01-10''"]
  have "date_section e sample_plain (commits_by_date (report_commits e sample_plain cs)) =
       Inr ([txt_daily_heading, []] @
            concat (map (\<lambda>d. [ascii ''### '' @ d] @
              map (\<lambda>c. date_commit_line (stats_of e sample_plain (hash c)) c)
                (filter (\<lambda>c. date c = d) (report_commits e sample_plain cs)) @ [[]])
              (sorted_reverse
                (map fst (commits_by_date (report_commits e sample_plain cs))))))"
    using inst by blast
  then have sec: "date_section e sample_plain
        (commits_by_date (report_commits e sample_plain cs)) =
         Inr [txt_daily_heading, [],
              ascii ''### 2024-01-12'', date_commit_line z c2, [],
              ascii ''### 2024-01-11'', date_commit_line z c4, [],
              ascii ''### 2024-01-10'', date_commit_line z c1, date_commit_line z c3, []]"
    unfolding sr unfolding rc by (simp add: fl st) (simp add: ascii_def)
  have "filter (\<lambda>c. date c = ascii ''2024-01-10'') (report_commits e sample_plain cs) =
      report_commits e sample_plain (filter (\<lambda>c. date c = ascii ''2024-01-10'') cs)"
    using inst by blast
  then have gr: "filter (\<lambda>c. date c = ascii ''2024-01-10'')
      (report_commits e sample_plain cs) = [c1, c3]"
    using u by (simp add: fl report_commits_def)
  have all: "git_found e sample_plain cs \<and>
       map date cs =
         [ascii ''2024-01-10'', ascii ''2024-01-12'', ascii ''2024-01-10'', ascii ''2024-01-11''] \<and>
       sorted_reverse (map fst (commits_by_date (report_commits e sample_plain cs))) =
         [ascii ''2024-01-12'', ascii ''2024-01-11'', ascii ''2024-01-10''] \<and>
       filter (\<lambda>c. date c = ascii ''2024-01-10'') (report_commits e sample_plain cs) =
         [c1, c3] \<and>
       date_section e sample_plain (commits_by_date (report_commits e sample_plain cs)) =
         Inr [txt_daily_heading, [],
              ascii ''### 2024-01-12'', date_commit_line z c2, [],
              ascii ''### 2024-01-11'', date_commit_line z c4, [],
              ascii ''### 2024-01-10'', date_commit_line z c1, date_commit_line z c3, []]"
    using gf md sr gr sec by blast
  show ?thesis
    unfolding Let_def using all
    unfolding c1_def c2_def c3_def c4_def cs_def e_def z_def .
qed

subsection \<open>C7: the statistics section\<close>

text \<open>
  C7. For every non-empty commit sequence for which the \<^verbatim>\<open>git\<close> executable is found,
  \<^verbatim>\<open>get_commit_stats\<close> returns the stats of every commit, and the report is the header
  (and the summary, if any), then the statistics section, then the category and per-date
  sections. The statistics section shows the number of commits, which is the length of
  the sequence, and the total files, insertions and deletions, each the sum over all
  commits of that field of the commit's stats. For the two commits of the scenario with
  all-zero stats the section has the lines \<^verbatim>\<open>- **\u63d0\u4ea4\u6b21\u6570**: 2 \u6b21\<close> and
  \<^verbatim>\<open>- **\u6587\u4ef6\u53d8\u66f4**: 0 \u4e2a\u6587\u4ef6\<close>.
\<close>

theorem generate_report_statistics:
  assumes "cs \<noteq> []" "git_found e self cs"
  shows "(\<forall>c\<in>set cs. get_commit_stats e self (hash c) = Inr (stats_of e self (hash c))) \<and>
   generate_report e self cs =
     Inr (join [10]
       ((header_lines self (report_commits e self cs) @
         summary_lines e self (report_commits e self cs)) @
        [txt_stats_heading, [],
         txt_commit_count @ str_int (int (length cs)) @ txt_times,
         txt_files_changed @
           str_int (sum_list (map (\<lambda>c. files_changed (stats_of e self (hash c))) cs)) @
           txt_files,
         txt_added @
           str_int (sum_list (map (\<lambda>c. insertions (stats_of e self (hash c))) cs)) @
           txt_lines,
         txt_deleted @
           str_int (sum_list (map (\<lambda>c. deletions (stats_of e self (hash c))) cs)) @
           txt_lines,
         []] @
        (category_section self
           (categorize_commits (str_lower e) (report_commits e self cs)) @
         [txt_daily_heading, []] @
         concat (map (\<lambda>d. [ascii ''### '' @ d] @
           map (\<lambda>c. date_commit_line (stats_of e self (hash c)) c)
             (filter (\<lambda>c. date c = d) (report_commits e self cs)) @ [[]])
           (sorted_reverse (map fst (commits_by_date (report_commits e self cs))))))))"
proof -
  have a: "\<forall>c\<in>set cs. get_commit_stats e self (hash c) = Inr (stats_of e self (hash c))"
    using assms(2) by (auto simp add: git_found_def list_all_iff get_commit_stats_found)
  show ?thesis
    using a generate_report_found[OF assms] by (simp add: stats_lines_def)
qed

theorem generate_report_statistics_witness:
  "[sample_alice, sample_bob] \<noteq> [] \<and>
   git_found (sample_env (Completed []) RequestRaises) sample_plain [sample_alice, sample_bob] \<and>
   get_commit_stats (sample_env (Completed []) RequestRaises) sample_plain (ascii ''a1'') =
     Inr \<lparr>files_changed = 0, insertions = 0, deletions = 0\<rparr> \<and>
   get_commit_stats (sample_env (Completed []) RequestRaises) sample_plain (ascii ''b2'') =
     Inr \<lparr>files_changed = 0, insertions = 0, deletions = 0\<rparr> \<and>
   (\<exists>before after.
      generate_report (sample_env (Completed []) RequestRaises) sample_plain
        [sample_alice, sample_bob] =
      Inr (join [10]
        (before @
         [txt_stats_heading, [],
          txt_commit_count @ ascii ''2'' @ txt_times,
          txt_files_changed @ ascii ''0'' @ txt_files,
          txt_added @ ascii ''0'' @ txt_lines,
          txt_deleted @ ascii ''0'' @ txt_lines,
          []] @ after)))"
proof -
  define e where "e = sample_env (Completed []) RequestRaises"
  define cs where "cs = [sample_alice, sample_bob]"
  have ne: "cs \<noteq> []" by (simp add: cs_def)
  have gf: "git_found e sample_plain cs"
    by (simp add: git_found_def e_def sample_env_def cs_def)
  note inst = generate_report_statistics[OF ne gf]
  have z: "stats_of e sample_plain h = \<lparr>files_changed = 0, insertions = 0, deletions = 0\<rparr>"
    for h
    by (simp add: stats_of_def e_def sample_env_def parse_stats_def strip_def zero_stats_def
        update_stats_def ascii_def sublist_code)
  have hs: "hash sample_alice = ascii ''a1''" "hash sample_bob = ascii ''b2''"
    by (simp_all add: sample_alice_def sample_bob_def)
  have g1: "get_commit_stats e sample_plain (ascii ''a1'') =
      Inr \<lparr>files_changed = 0, insertions = 0, deletions = 0\<rparr>"
    using inst hs(1) by (simp add: cs_def z)
  have g2: "get_commit_stats e sample_plain (ascii ''b2'') =
      Inr \<lparr>files_changed = 0, insertions = 0, deletions = 0\<rparr>"
    using inst hs(2) by (simp add: cs_def z)
  have n2: "str_int (int (length cs)) = ascii ''2''"
    by (simp add: cs_def str_int_def str_nat.simps[of 2] ascii_def)
  have n0: "str_int 0 = ascii ''0''"
    by (simp add: str_int_def str_nat.simps[of 0] ascii_def)
  have s: "sum_list (map (\<lambda>c. files_changed (stats_of e sample_plain (hash c))) cs) = 0"
    "sum_list (map (\<lambda>c. insertions (stats_of e sample_plain (hash c))) cs) = 0"
    "sum_list (map (\<lambda>c. deletions (stats_of e sample_plain (hash c))) cs) = 0"
    by (simp_all add: z)
  have r: "\<exists>before after.
      generate_report e sample_plain cs =
      Inr (join [10]
        (before @
         [txt_stats_heading, [],
          txt_commit_count @ ascii ''2'' @ txt_times,
          txt_files_changed @ ascii ''0'' @ txt_files,
          txt_added @ ascii ''0'' @ txt_lines,
          txt_deleted @ ascii ''0'' @ txt_lines,
          []] @ after))"
    using inst unfolding s n2 n0 by blast
  show ?thesis
    using ne gf g1 g2 r unfolding e_def cs_def by blast
qed

subsection \<open>C8: enhancement changes only the message\<close>

text \<open>
  C8 as stated does not hold for a generator with enhancement disabled: the guard of
  line 223 returns the list as it is, and the record of the result has no
  \<^verbatim>\<open>original_message\<close>.
\<close>

theorem enhance_commit_messages_disabled_counterexample:
  "enhance_commit_messages (sample_env CalledProcessError RequestRaises) sample_plain
     [sample_alice] = [sample_alice] \<and>
   original_message (hd (enhance_commit_messages
     (sample_env CalledProcessError RequestRaises) sample_plain [sample_alice])) = None \<and>
   original_message (hd (enhance_commit_messages
     (sample_env CalledProcessError RequestRaises) sample_plain [sample_alice])) \<noteq>
     Some (message sample_alice)"
  by (simp add: enhance_commit_messages_def sample_plain_def GitWeeklyReport_def sample_alice_def)

text \<open>
  C8, as amended. \<^verbatim>\<open>enhance_commit_messages\<close> returns a sequence of the same length and
  order whose records keep their hash, author and date. When enhancement is enabled
  (\<^verbatim>\<open>use_llm\<close> is set and the enhancer exists) every record gets
  \<^verbatim>\<open>original_message\<close> equal to the message it had and its message is the enhancer's
  answer; when it is disabled (the guard of line 223) the input is returned unchanged and
  no record gains \<^verbatim>\<open>original_message\<close>.
\<close>

theorem enhance_commit_messages_frame:
  "length (enhance_commit_messages e self cs) = length cs \<and>
   map hash (enhance_commit_messages e self cs) = map hash cs \<and>
   map author (enhance_commit_messages e self cs) = map author cs \<and>
   map date (enhance_commit_messages e self cs) = map date cs \<and>
   (use_llm self \<and> llm self = Some l \<longrightarrow>
      map original_message (enhance_commit_messages e self cs) =
        map (\<lambda>c. Some (message c)) cs \<and>
      map message (enhance_commit_messages e self cs) =
        map (\<lambda>c. enhance_commit_message e l (message c)) cs) \<and>
   (\<not> use_llm self \<or> llm self = None \<longrightarrow> enhance_commit_messages e self cs = cs)"
  using enhance_commit_messages_length[of e self cs]
    enhance_commit_messages_fields[of e self cs]
    enhance_commit_messages_enabled[of self l e cs]
    enhance_commit_messages_unchanged[of self e cs]
  by blast

theorem enhance_commit_messages_frame_witness:
  "use_llm sample_enhancing \<and>
   llm sample_enhancing = Some (LLMEnhancer (Some (ascii ''sk-1'')) default_model None) \<and>
   map original_message (enhance_commit_messages
      (sample_env CalledProcessError (Response 200 (Some sample_answer))) sample_enhancing
      [sample_alice, sample_bob]) =
     [Some (ascii ''fix login bug''), Some (ascii ''add new dashboard'')] \<and>
   map message (enhance_commit_messages
      (sample_env CalledProcessError (Response 200 (Some sample_answer))) sample_enhancing
      [sample_alice, sample_bob]) = [ascii ''done'', ascii ''done''] \<and>
   map hash (enhance_commit_messages
      (sample_env CalledProcessError (Response 200 (Some sample_answer))) sample_enhancing
      [sample_alice, sample_bob]) = [ascii ''a1'', ascii ''b2''] \<and>
   \<not> use_llm sample_plain \<and>
   enhance_commit_messages (sample_env CalledProcessError RequestRaises) sample_plain
      [sample_alice, sample_bob] = [sample_alice, sample_bob]"
proof -
  let ?e = "sample_env CalledProcessError (Response 200 (Some sample_answer))"
  let ?l = "LLMEnhancer (Some (ascii ''sk-1'')) default_model None"
  have u: "use_llm sample_enhancing" "llm sample_enhancing = Some ?l"
    by (simp_all add: sample_enhancing_def GitWeeklyReport_def)
  have p: "\<not> use_llm sample_plain"
    by (simp add: sample_plain_def GitWeeklyReport_def)
  have k: "truthy (api_key ?l)"
    by (simp add: LLMEnhancer_def py_or_def truthy_def ascii_def)
  have c: "response_content (Some sample_answer) = Inr (ascii ''done'')"
    by (simp add: response_content_def sample_answer_def getitem_def getitem0_def
        json_strip_def strip_def isspace_def ascii_def)
  have m: "enhance_commit_message ?e ?l x = ascii ''done''" for x
    using k c by (simp add: enhance_commit_message_def sample_env_def)
  show ?thesis
    using enhance_commit_messages_frame[of ?e sample_enhancing "[sample_alice, sample_bob]" ?l]
      enhance_commit_messages_frame[of "sample_env CalledProcessError RequestRaises"
        sample_plain "[sample_alice, sample_bob]" ?l] u p
    by (simp add: m sample_alice_def sample_bob_def)
qed

subsection \<open>C9: the summary prompt reads the first ten commits\<close>

text \<open>
  C9. With a credential and a non-empty commit list, \<^verbatim>\<open>generate_summary\<close> posts exactly
  one request, \<open>summary_request\<close>, and its result is read off the answer to that request:
  the stripped content of a readable 200 answer, the empty text otherwise. The request has
  the fixed URL, headers, model, temperature, token cap and timeout, and its prompt is the
  fixed head, one line \<^verbatim>\<open>- author: message\<close> for each of the first ten commits, and the
  fixed tail. It is the request for the first ten commits alone, so two lists with the
  same first ten commits send the same request and get the same summary, and two worlds
  that answer this one request alike give the same summary. Without a credential or for
  the empty list no request is made and the result is the empty text.
\<close>

theorem generate_summary_first_ten:
  "req_content (summary_request l cs) =
     summary_prompt_head @
     join [10] (map (\<lambda>c. ascii ''- '' @ author c @ ascii '': '' @ message c) (take 10 cs)) @
     summary_prompt_tail \<and>
   summary_request l cs =
     \<lparr>req_url = base_url l, req_headers = request_headers l, req_model = model l,
      req_content =
        summary_prompt_head @
        join [10] (map (\<lambda>c. ascii ''- '' @ author c @ ascii '': '' @ message c) (take 10 cs)) @
        summary_prompt_tail,
      req_temperature = 5 / 10, req_max_tokens = 150, req_timeout = 15\<rparr> \<and>
   summary_request l cs = summary_request l (take 10 cs) \<and>
   (truthy (api_key l) \<and> cs \<noteq> [] \<longrightarrow>
      generate_summary e l cs =
        (case requests_post e (summary_request l cs) of
           RequestRaises \<Rightarrow> []
         | Response status_code body \<Rightarrow>
             if status_code = 200
             then (case response_content body of Inr s \<Rightarrow> s | Inl ex \<Rightarrow> [])
             else [])) \<and>
   (truthy (api_key l) \<and> cs \<noteq> [] \<and>
    requests_post e (summary_request l cs) = Response 200 body \<and>
    response_content body = Inr s \<longrightarrow>
      generate_summary e l cs = s) \<and>
   (\<not> truthy (api_key l) \<or> cs = [] \<longrightarrow> generate_summary e l cs = []) \<and>
   (requests_post e (summary_request l cs) = requests_post e' (summary_request l cs) \<longrightarrow>
      generate_summary e l cs = generate_summary e' l cs) \<and>
   (take 10 cs = take 10 cs' \<longrightarrow>
      summary_request l cs = summary_request l cs' \<and>
      generate_summary e l cs = generate_summary e l cs') \<and>
   generate_summary e l [] = []"
proof -
  have a: "req_content (summary_request l cs) =
     summary_prompt_head @
     join [10] (map (\<lambda>c. ascii ''- '' @ author c @ ascii '': '' @ message c) (take 10 cs)) @
     summary_prompt_tail"
    by (simp add: summary_request_def commit_texts_def)
  have r: "summary_request l cs =
     \<lparr>req_url = base_url l, req_headers = request_headers l, req_model = model l,
      req_content =
        summary_prompt_head @
        join [10] (map (\<lambda>c. ascii ''- '' @ author c @ ascii '': '' @ message c) (take 10 cs)) @
        summary_prompt_tail,
      req_temperature = 5 / 10, req_max_tokens = 150, req_timeout = 15\<rparr>"
    by (simp add: summary_request_def commit_texts_def)
  have b: "summary_request l cs = summary_request l (take 10 cs)"
    by (rule summary_request_take) simp
  have p: "truthy (api_key l) \<and> cs \<noteq> [] \<longrightarrow>
      generate_summary e l cs =
        (case requests_post e (summary_request l cs) of
           RequestRaises \<Rightarrow> []
         | Response status_code body \<Rightarrow>
             if status_code = 200
             then (case response_content body of Inr s \<Rightarrow> s | Inl ex \<Rightarrow> [])
             else [])"
    by (simp add: generate_summary_def)
  have q: "truthy (api_key l) \<and> cs \<noteq> [] \<and>
    requests_post e (summary_request l cs) = Response 200 body \<and>
    response_content body = Inr s \<longrightarrow>
      generate_summary e l cs = s"
    by (simp add: generate_summary_def)
  have n: "\<not> truthy (api_key l) \<or> cs = [] \<longrightarrow> generate_summary e l cs = []"
    by (auto simp add: generate_summary_def)
  have d: "requests_post e (summary_request l cs) = requests_post e' (summary_request l cs) \<longrightarrow>
      generate_summary e l cs = generate_summary e' l cs"
    by (simp add: generate_summary_def)
  have c: "generate_summary e l [] = []"
    by (simp add: generate_summary_def)
  show ?thesis
    using a r b p q n d c summary_request_take[of cs cs' l] generate_summary_take[of cs cs' e l]
    by blast
qed

theorem generate_summary_first_ten_witness:
  "(let l = LLMEnhancer (Some (ascii ''sk-1'')) default_model None;
        cs = replicate 10 sample_alice @ [sample_bob];
        cs' = replicate 10 sample_alice @ [sample_alice, sample_alice];
        cs9 = replicate 9 sample_alice @ [sample_bob, sample_bob];
        e = sample_env_expecting (summary_request l cs) (Response 200 (Some sample_answer))
    in truthy (api_key l) \<and> cs \<noteq> [] \<and> cs \<noteq> cs' \<and>
       take 10 cs = take 10 cs' \<and>
       requests_post e (summary_request l cs) = Response 200 (Some sample_answer) \<and>
       response_content (Some sample_answer) = Inr (ascii ''done'') \<and>
       summary_request l cs = summary_request l cs' \<and>
       generate_summary e l cs = ascii ''done'' \<and>
       generate_summary e l cs' = ascii ''done'' \<and>
       take 9 cs9 = take 9 cs \<and>
       summary_request l cs9 \<noteq> summary_request l cs \<and>
       requests_post e (summary_request l cs9) = RequestRaises \<and>
       generate_summary e l cs9 = [] \<and>
       generate_summary e (LLMEnhancer None default_model None) cs = [] \<and>
       generate_summary e l [] = [])"
proof -
  define l where "l = LLMEnhancer (Some (ascii ''sk-1'')) default_model None"
  define cs where "cs = replicate 10 sample_alice @ [sample_bob]"
  define cs' where "cs' = replicate 10 sample_alice @ [sample_alice, sample_alice]"
  define cs9 where "cs9 = replicate 9 sample_alice @ [sample_bob, sample_bob]"
  define e where
    "e = sample_env_expecting (summary_request l cs) (Response 200 (Some sample_answer))"
  define l0 where "l0 = LLMEnhancer None default_model None"
  have k: "truthy (api_key l)"
    by (simp add: l_def LLMEnhancer_def py_or_def truthy_def ascii_def)
  have k0: "\<not> truthy (api_key l0)"
    by (simp add: l0_def LLMEnhancer_def py_or_def truthy_def)
  have ne: "cs \<noteq> []" "cs \<noteq> cs'" "cs9 \<noteq> []"
    by (simp_all add: cs_def cs'_def cs9_def)
  have t: "take 10 cs = take 10 cs'"
    by (simp add: cs_def cs'_def)
  have t9: "take 9 cs9 = take 9 cs"
    by (simp add: cs_def cs9_def replicate_append_same[symmetric] del: replicate.simps)
  have po: "requests_post e (summary_request l cs) = Response 200 (Some sample_answer)"
    by (simp add: e_def sample_env_expecting_def)
  have rc: "response_content (Some sample_answer) = Inr (ascii ''done'')"
    by (simp add: response_content_def sample_answer_def getitem_def getitem0_def
        json_strip_def strip_def isspace_def ascii_def)
  have se: "summary_request l cs = summary_request l cs'"
    using generate_summary_first_ten[where l = l and cs = cs and cs' = cs' and e = e
        and e' = e and body = "Some sample_answer" and s = "ascii ''done''"] t
    by blast
  have g: "generate_summary e l cs = ascii ''done''"
    using generate_summary_first_ten[where l = l and cs = cs and cs' = cs' and e = e
        and e' = e and body = "Some sample_answer" and s = "ascii ''done''"] k ne(1) po rc
    by blast
  have "generate_summary e l cs = generate_summary e l cs'"
    using generate_summary_first_ten[where l = l and cs = cs and cs' = cs' and e = e
        and e' = e and body = "Some sample_answer" and s = "ascii ''done''"] t
    by blast
  then have g': "generate_summary e l cs' = ascii ''done''"
    using g by simp
  have "commit_texts cs9 ! 9 \<noteq> commit_texts cs ! 9"
    by (simp add: commit_texts_def cs_def cs9_def nth_append sample_alice_def sample_bob_def
        ascii_def)
  then have ct: "commit_texts cs9 \<noteq> commit_texts cs"
    by metis
  have nl: "\<forall>x\<in>set (commit_texts cs9). 10 \<notin> set x" "\<forall>x\<in>set (commit_texts cs). 10 \<notin> set x"
    by (auto simp add: commit_texts_def cs_def cs9_def sample_alice_def sample_bob_def
        ascii_def dest!: in_set_takeD)
  have nn: "commit_texts cs9 \<noteq> []" "commit_texts cs \<noteq> []"
    by (simp_all add: commit_texts_def cs_def cs9_def)
  have "join [10] (commit_texts cs9) \<noteq> join [10] (commit_texts cs)"
    using join_inject[OF nn nl] ct by blast
  then have sn: "summary_request l cs9 \<noteq> summary_request l cs"
    by (simp add: summary_request_def)
  have po9: "requests_post e (summary_request l cs9) = RequestRaises"
    using sn by (simp add: e_def sample_env_expecting_def)
  have "generate_summary e l cs9 =
        (case requests_post e (summary_request l cs9) of
           RequestRaises \<Rightarrow> []
         | Response status_code body \<Rightarrow>
             if status_code = 200
             then (case response_content body of Inr s \<Rightarrow> s | Inl ex \<Rightarrow> [])
             else [])"
    using generate_summary_first_ten[where l = l and cs = cs9 and cs' = cs' and e = e
        and e' = e and body = "Some sample_answer" and s = "ascii ''done''"] k ne(3)
    by blast
  then have g9: "generate_summary e l cs9 = []"
    unfolding po9 by simp
  have g0: "generate_summary e l0 cs = []"
    using generate_summary_first_ten[where l = l0 and cs = cs and cs' = cs' and e = e
        and e' = e and body = "Some sample_answer" and s = "ascii ''done''"] k0
    by blast
  have gn: "generate_summary e l [] = []"
    using generate_summary_first_ten[where l = l and cs = cs and cs' = cs' and e = e
        and e' = e and body = "Some sample_answer" and s = "ascii ''done''"]
    by blast
  have all: "truthy (api_key l) \<and> cs \<noteq> [] \<and> cs \<noteq> cs' \<and>
       take 10 cs = take 10 cs' \<and>
       requests_post e (summary_request l cs) = Response 200 (Some sample_answer) \<and>
       response_content (Some sample_answer) = Inr (ascii ''done'') \<and>
       summary_request l cs = summary_request l cs' \<and>
       generate_summary e l cs = ascii ''done'' \<and>
       generate_summary e l cs' = ascii ''done'' \<and>
       take 9 cs9 = take 9 cs \<and>
       summary_request l cs9 \<noteq> summary_request l cs \<and>
       requests_post e (summary_request l cs9) = RequestRaises \<and>
       generate_summary e l cs9 = [] \<and>
       generate_summary e l0 cs = [] \<and>
       generate_summary e l [] = []"
    using k ne t po rc se g g' t9 sn po9 g9 g0 gn by blast
  show ?thesis
    unfolding Let_def using all
    unfolding l_def cs_def cs'_def cs9_def e_def l0_def .
qed

subsection \<open>C10: empty categories are left out of the report\<close>

text \<open>
  C10. The mapping returned by \<^verbatim>\<open>categorize_commits\<close> always has all six labels. In
  the category section of the report a bucket without commits contributes no line at
  all, and a bucket with commits contributes its sub-heading
  \<^verbatim>\<open>### label (count)\<close>, the lines of its commits and an empty line. So the
  sub-headings of the section are exactly those of the non-empty buckets, in the order of
  the mapping, each with the number of commits of its bucket; and this section is part of
  the report of every non-empty commit sequence.
\<close>

theorem category_section_omits_empty_buckets:
  "map fst (categorize_commits lower cs) = category_labels \<and>
   length category_labels = 6 \<and>
   category_section self (categorize_commits lower cs) =
     [txt_categories_heading, []] @
     concat (map (category_lines self) (categorize_commits lower cs)) \<and>
   (v = [] \<longrightarrow> category_lines self (k, v) = []) \<and>
   (v \<noteq> [] \<longrightarrow>
      category_lines self (k, v) =
        [ascii ''### '' @ k @ ascii '' ('' @ str_int (int (length v)) @ ascii '')''] @
        concat (map (category_commit_lines self) v) @ [[]]) \<and>
   filter is_subheading (category_section self (categorize_commits lower cs)) =
     map (\<lambda>(k, v). ascii ''### '' @ k @ ascii '' ('' @ str_int (int (length v)) @ ascii '')'')
       (filter (\<lambda>(k, v). v \<noteq> []) (categorize_commits lower cs)) \<and>
   (cs \<noteq> [] \<and> git_found e self cs \<longrightarrow>
      (\<exists>before after.
         generate_report e self cs =
           Inr (join [10]
             (before @
              category_section self
                (categorize_commits (str_lower e) (report_commits e self cs)) @
              after))))"
proof -
  have six: "length category_labels = 6"
    by (simp add: category_labels_def)
  have h: "(\<lambda>(k, v). category_heading k v) =
      (\<lambda>(k, v). ascii ''### '' @ k @ ascii '' ('' @ str_int (int (length v)) @ ascii '')'')"
    by (simp add: category_heading_def fun_eq_iff)
  have f: "filter is_subheading (category_section self (categorize_commits lower cs)) =
     map (\<lambda>(k, v). ascii ''### '' @ k @ ascii '' ('' @ str_int (int (length v)) @ ascii '')'')
       (filter (\<lambda>(k, v). v \<noteq> []) (categorize_commits lower cs))"
    using category_section_subheadings[of self "categorize_commits lower cs"]
    unfolding h .
  have g: "cs \<noteq> [] \<and> git_found e self cs \<longrightarrow>
      (\<exists>before after.
         generate_report e self cs =
           Inr (join [10]
             (before @
              category_section self
                (categorize_commits (str_lower e) (report_commits e self cs)) @
              after)))"
  proof
    assume a: "cs \<noteq> [] \<and> git_found e self cs"
    then have "generate_report e self cs =
      Inr (join [10]
       ((header_lines self (report_commits e self cs) @
         summary_lines e self (report_commits e self cs) @
         stats_lines (length cs)
          (sum_list (map (\<lambda>c. files_changed (stats_of e self (hash c))) cs),
           sum_list (map (\<lambda>c. insertions (stats_of e self (hash c))) cs),
           sum_list (map (\<lambda>c. deletions (stats_of e self (hash c))) cs))) @
        category_section self
          (categorize_commits (str_lower e) (report_commits e self cs)) @
        ([txt_daily_heading, []] @
         concat (map (\<lambda>d. [ascii ''### '' @ d] @
          map (\<lambda>c. date_commit_line (stats_of e self (hash c)) c)
            (filter (\<lambda>c. date c = d) (report_commits e self cs)) @ [[]])
          (sorted_reverse (map fst (commits_by_date (report_commits e self cs))))))))"
      using generate_report_found[of cs e self] by simp
    then show "\<exists>before after.
         generate_report e self cs =
           Inr (join [10]
             (before @
              category_section self
                (categorize_commits (str_lower e) (report_commits e self cs)) @
              after))"
      by blast
  qed
  show ?thesis
    using categorize_commits_keys[of lower cs] six f g
    by (simp add: category_section_def category_lines_def category_heading_def)
qed

theorem category_section_omits_empty_buckets_witness:
  "[sample_alice, sample_bob] \<noteq> [] \<and>
   git_found (sample_env (Completed []) RequestRaises) sample_plain [sample_alice, sample_bob] \<and>
   categorize_commits ascii_lower [sample_alice, sample_bob] =
     [(cat_feature, [sample_bob]), (cat_bugfix, [sample_alice]), (cat_docs, []),
      (cat_refactor, []), (cat_test, []), (cat_other, [])] \<and>
   filter is_subheading
     (category_section sample_plain (categorize_commits ascii_lower [sample_alice, sample_bob])) =
     [ascii ''### '' @ cat_feature @ ascii '' (1)'', ascii ''### '' @ cat_bugfix @ ascii '' (1)''] \<and>
   category_lines sample_plain (cat_docs, []) = [] \<and>
   category_section sample_plain (categorize_commits ascii_lower [sample_alice, sample_bob]) =
     [txt_categories_heading, [],
      ascii ''### '' @ cat_feature @ ascii '' (1)'',
      ascii ''- **Bob**: add new dashboard'', [],
      ascii ''### '' @ cat_bugfix @ ascii '' (1)'',
      ascii ''- **Alice**: fix login bug'', []] \<and>
   (\<exists>before after.
      generate_report (sample_env (Completed []) RequestRaises) sample_plain
        [sample_alice, sample_bob] =
      Inr (join [10]
        (before @
         [txt_categories_heading, [],
          ascii ''### '' @ cat_feature @ ascii '' (1)'',
          ascii ''- **Bob**: add new dashboard'', [],
          ascii ''### '' @ cat_bugfix @ ascii '' (1)'',
          ascii ''- **Alice**: fix login bug'', []] @ after)))"
proof -
  define e where "e = sample_env (Completed []) RequestRaises"
  define cs where "cs = [sample_alice, sample_bob]"
  note inst = category_section_omits_empty_buckets[where lower = ascii_lower and cs = cs
      and self = sample_plain and e = e]
  have ne: "cs \<noteq> []" by (simp add: cs_def)
  have gf: "git_found e sample_plain cs"
    by (simp add: git_found_def e_def sample_env_def cs_def)
  have ca: "category_of ascii_lower sample_alice = cat_bugfix"
    by (simp add: category_of_def sample_alice_def kw_eval Let_def)
  have cb: "category_of ascii_lower sample_bob = cat_feature"
    by (simp add: category_of_def sample_bob_def kw_eval Let_def)
  have cat: "categorize_commits ascii_lower cs =
     [(cat_feature, [sample_bob]), (cat_bugfix, [sample_alice]), (cat_docs, []),
      (cat_refactor, []), (cat_test, []), (cat_other, [])]"
    using category_labels_distinct
    by (auto simp add: category_labels_def categorize_commits_def cs_def ca cb
        categories_init_def dict_append_def)
  have one: "str_int 1 = ascii ''1''"
    by (simp add: str_int_def str_nat.simps[of "Suc 0"] ascii_def)
  have u: "\<not> use_llm sample_plain"
    by (simp add: sample_plain_def GitWeeklyReport_def)
  have rc: "report_commits e sample_plain cs = cs"
    using u by (simp add: report_commits_def)
  have lw: "str_lower e = ascii_lower"
    by (simp add: e_def sample_env_def)
  have "filter is_subheading (category_section sample_plain (categorize_commits ascii_lower cs)) =
     map (\<lambda>(k, v). ascii ''### '' @ k @ ascii '' ('' @ str_int (int (length v)) @ ascii '')'')
       (filter (\<lambda>(k, v). v \<noteq> []) (categorize_commits ascii_lower cs))"
    using inst[where k = cat_docs and v = "[]"] by blast
  then have f: "filter is_subheading
      (category_section sample_plain (categorize_commits ascii_lower cs)) =
     [ascii ''### '' @ cat_feature @ ascii '' (1)'', ascii ''### '' @ cat_bugfix @ ascii '' (1)'']"
    unfolding cat by (simp add: one ascii_def)
  have em: "category_lines sample_plain (k, []) = []" for k
    using category_section_omits_empty_buckets[where lower = ascii_lower and cs = cs
      and self = sample_plain and e = e and k = k and v = "[]"] by blast
  have d: "category_lines sample_plain (cat_docs, []) = []"
    by (rule em)
  have "category_lines sample_plain (cat_feature, [sample_bob]) =
        [ascii ''### '' @ cat_feature @ ascii '' ('' @
           str_int (int (length [sample_bob])) @ ascii '')''] @
        concat (map (category_commit_lines sample_plain) [sample_bob]) @ [[]]"
    using inst[where k = cat_feature and v = "[sample_bob]"] by blast
  then have l1: "category_lines sample_plain (cat_feature, [sample_bob]) =
      [ascii ''### '' @ cat_feature @ ascii '' (1)'', ascii ''- **Bob**: add new dashboard'', []]"
    by (simp add: one category_commit_lines_def sample_bob_def ascii_def)
  have "category_lines sample_plain (cat_bugfix, [sample_alice]) =
        [ascii ''### '' @ cat_bugfix @ ascii '' ('' @
           str_int (int (length [sample_alice])) @ ascii '')''] @
        concat (map (category_commit_lines sample_plain) [sample_alice]) @ [[]]"
    using inst[where k = cat_bugfix and v = "[sample_alice]"] by blast
  then have l2: "category_lines sample_plain (cat_bugfix, [sample_alice]) =
      [ascii ''### '' @ cat_bugfix @ ascii '' (1)'', ascii ''- **Alice**: fix login bug'', []]"
    by (simp add: one category_commit_lines_def sample_alice_def ascii_def)
  have "category_section sample_plain (categorize_commits ascii_lower cs) =
     [txt_categories_heading, []] @
     concat (map (category_lines sample_plain) (categorize_commits ascii_lower cs))"
    using inst[where k = cat_docs and v = "[]"] by blast
  then have sec: "category_section sample_plain (categorize_commits ascii_lower cs) =
     [txt_categories_heading, [],
      ascii ''### '' @ cat_feature @ ascii '' (1)'',
      ascii ''- **Bob**: add new dashboard'', [],
      ascii ''### '' @ cat_bugfix @ ascii '' (1)'',
      ascii ''- **Alice**: fix login bug'', []]"
    unfolding cat by (simp add: l1 l2 em)
  have "\<exists>before after.
         generate_report e sample_plain cs =
           Inr (join [10]
             (before @
              category_section sample_plain
                (categorize_commits (str_lower e) (report_commits e sample_plain cs)) @
              after))"
    using inst[where k = cat_docs and v = "[]"] ne gf by blast
  then have r: "\<exists>before after.
      generate_report e sample_plain cs =
      Inr (join [10]
        (before @
         [txt_categories_heading, [],
          ascii ''### '' @ cat_feature @ ascii '' (1)'',
          ascii ''- **Bob**: add new dashboard'', [],
          ascii ''### '' @ cat_bugfix @ ascii '' (1)'',
          ascii ''- **Alice**: fix login bug'', []] @ after))"
    unfolding rc lw sec .
  show ?thesis
    using ne gf cat f d sec r unfolding e_def cs_def by blast
qed

end
